theory Spec2Isabelle
  imports Complex_Main "HOL-Library.Multiset"
begin

section \<open>Radioactive particle tracking: FEM reconstruction\<close>

text \<open>
  A shallow embedding of \<^verbatim>\<open>source/rpt/rpt_fem_reconstruction.cc\<close>: the per-cell cost
  evaluator, the validity check of reference coordinates, the global and the local cell
  search, the trajectory driver and the checkpoint of the nodal counts.

  The C++ \<^verbatim>\<open>double\<close> is modelled as \<^typ>\<open>real\<close>: the arithmetic is exact, and the two
  places where a \<^verbatim>\<open>double\<close> has a value that no real number stands for are written out
  (\<^verbatim>\<open>DBL_MAX\<close> as a constant, a division by a zero count as a result of its own).
  The class is instantiated for \<^verbatim>\<open>dim = 3\<close> only (\<^verbatim>\<open>template class RPTFEMReconstruction<3>\<close>).
\<close>

subsection \<open>Parameters and failures\<close>

definition dim :: nat where
  "dim = 3"

datatype FEMCostFunction = absolute | relative

text \<open>
  What stops a call: \<open>ExcSingular\<close> is the exception of the LU factorisation on a singular
  matrix, \<open>ExcIO\<close> the one of an archive on a stream that cannot be read. \<open>OutOfRange\<close>
  stands for an index past the end of a \<^verbatim>\<open>std::vector\<close> (undefined in C++) and
  \<open>NotFinite\<close> for the division by a zero observed count (an infinity in C++): the model
  stops there.
\<close>

datatype error = ExcSingular | ExcIO | OutOfRange | NotFinite

subsection \<open>Cost evaluator: \<^verbatim>\<open>assemble_matrix_and_rhs\<close>\<close>

text \<open>
  The accumulation \<^verbatim>\<open>sigma = 0; for (d = 0; d < n; ++d) sigma += f(d);\<close> that every entry
  of the matrix and of the right-hand side is built with.
\<close>

definition sigma_loop :: "nat \<Rightarrow> (nat \<Rightarrow> real) \<Rightarrow> real" where
  "sigma_loop n f = fold (\<lambda>d sigma. sigma + f d) [0..<n] 0"

definition sys_matrix_absolute :: "real list list \<Rightarrow> real list list" where
  "sys_matrix_absolute vertex_count =
     map (\<lambda>i. map (\<lambda>j. sigma_loop (length vertex_count)
                 (\<lambda>d. (- (vertex_count ! d ! 0) + vertex_count ! d ! (j + 1)) *
                      (- (vertex_count ! d ! 0) + vertex_count ! d ! (i + 1))))
            [0..<dim]) [0..<dim]"

definition sys_rhs_absolute :: "real list list \<Rightarrow> real list \<Rightarrow> real list" where
  "sys_rhs_absolute vertex_count experimental_count =
     map (\<lambda>i. - sigma_loop (length vertex_count)
                 (\<lambda>d. (vertex_count ! d ! 0 - experimental_count ! d) *
                      (- (vertex_count ! d ! 0) + vertex_count ! d ! (i + 1))))
         [0..<dim]"

definition denom_of :: "real list \<Rightarrow> real list" where
  "denom_of experimental_count =
     map (\<lambda>d. 1 / (experimental_count ! d * experimental_count ! d))
         [0..<length experimental_count]"

definition sys_matrix_relative :: "real list list \<Rightarrow> real list \<Rightarrow> real list list" where
  "sys_matrix_relative vertex_count experimental_count =
     (let denom = denom_of experimental_count in
      map (\<lambda>i. map (\<lambda>j. sigma_loop (length vertex_count)
                 (\<lambda>d. (- (vertex_count ! d ! 0) + vertex_count ! d ! (j + 1)) *
                      (- (vertex_count ! d ! 0) + vertex_count ! d ! (i + 1)) *
                      denom ! d))
            [0..<dim]) [0..<dim])"

definition sys_rhs_relative :: "real list list \<Rightarrow> real list \<Rightarrow> real list" where
  "sys_rhs_relative vertex_count experimental_count =
     (let denom = denom_of experimental_count in
      map (\<lambda>i. - sigma_loop (length vertex_count)
                 (\<lambda>d. (vertex_count ! d ! 0 - experimental_count ! d) *
                      (- (vertex_count ! d ! 0) + vertex_count ! d ! (i + 1)) *
                      denom ! d))
          [0..<dim])"

definition sys_matrix_of ::
  "FEMCostFunction \<Rightarrow> real list list \<Rightarrow> real list \<Rightarrow> real list list" where
  "sys_matrix_of cost_function_type vertex_count experimental_count =
     (case cost_function_type of
        absolute \<Rightarrow> sys_matrix_absolute vertex_count
      | relative \<Rightarrow> sys_matrix_relative vertex_count experimental_count)"

definition sys_rhs_of ::
  "FEMCostFunction \<Rightarrow> real list list \<Rightarrow> real list \<Rightarrow> real list" where
  "sys_rhs_of cost_function_type vertex_count experimental_count =
     (case cost_function_type of
        absolute \<Rightarrow> sys_rhs_absolute vertex_count experimental_count
      | relative \<Rightarrow> sys_rhs_relative vertex_count experimental_count)"

text \<open>
  Modelled from the spec: \<^verbatim>\<open>LAPACKFullMatrix::compute_lu_factorization\<close> and
  \<^verbatim>\<open>LAPACKFullMatrix::solve\<close> belong to the deal.II library and are not part of the source.
  The spec: the dense system is solved for the \<open>dim\<close> unknown reference coordinates, and
  ``no error path other than a singular system, which is reported as a numerical failure''.
  Over the reals an LU factorisation with pivoting meets a zero pivot exactly when the
  determinant is zero, and otherwise yields the one solution of the system, which for the
  three by three system is given here by Cramer's rule.
\<close>

definition det3 :: "real list list \<Rightarrow> real" where
  "det3 m =
     m ! 0 ! 0 * (m ! 1 ! 1 * m ! 2 ! 2 - m ! 1 ! 2 * m ! 2 ! 1)
     - m ! 0 ! 1 * (m ! 1 ! 0 * m ! 2 ! 2 - m ! 1 ! 2 * m ! 2 ! 0)
     + m ! 0 ! 2 * (m ! 1 ! 0 * m ! 2 ! 1 - m ! 1 ! 1 * m ! 2 ! 0)"

definition replace_column :: "real list list \<Rightarrow> nat \<Rightarrow> real list \<Rightarrow> real list list" where
  "replace_column m k b = map (\<lambda>i. (m ! i)[k := b ! i]) [0..<length m]"

definition lu_solve :: "real list list \<Rightarrow> real list \<Rightarrow> real list option" where
  "lu_solve m b =
     (if det3 m = 0 then None
      else Some (map (\<lambda>k. det3 (replace_column m k b) / det3 m) [0..<dim]))"

text \<open>
  The function reads \<^verbatim>\<open>vertex_count[d][0..dim]\<close> and \<^verbatim>\<open>experimental_count[d]\<close> for every
  \<^verbatim>\<open>d < vertex_count.size()\<close>; in relative mode it also writes \<^verbatim>\<open>denom[d]\<close>, a vector of
  that size, for every \<^verbatim>\<open>d < experimental_count.size()\<close>.
\<close>

definition assemble_matrix_and_rhs ::
  "real list list \<Rightarrow> real list \<Rightarrow> FEMCostFunction \<Rightarrow> error + real list" where
  "assemble_matrix_and_rhs vertex_count experimental_count cost_function_type =
     (let detector_size = length vertex_count in
      if \<not> list_all (\<lambda>row. dim < length row) vertex_count then Inl OutOfRange
      else if length experimental_count < detector_size then Inl OutOfRange
      else if cost_function_type = relative \<and> detector_size < length experimental_count
        then Inl OutOfRange
      else if cost_function_type = relative \<and> 0 \<in> set experimental_count
        then Inl NotFinite
      else
        (case lu_solve (sys_matrix_of cost_function_type vertex_count experimental_count)
                       (sys_rhs_of cost_function_type vertex_count experimental_count) of
           None \<Rightarrow> Inl ExcSingular
         | Some reference_location \<Rightarrow> Inr reference_location))"

subsection \<open>Validity checker: \<^verbatim>\<open>calculate_reference_location_error\<close>\<close>

definition calculate_reference_location_error :: "real list \<Rightarrow> real \<Rightarrow> real" where
  "calculate_reference_location_error reference_location last_constraint =
     (let err0 = replicate (dim + 1) (0::real);
          err1 = fold (\<lambda>i err.
                    let e1 = (if reference_location ! i > 1
                              then err[i := reference_location ! i - 1] else err)
                    in (if reference_location ! i < 0
                        then e1[i := \<bar>reference_location ! i\<bar>] else e1))
                  [0..<dim] err0;
          err_coordinates =
            (if last_constraint < 0 then err1[3 := \<bar>last_constraint\<bar>]
             else if last_constraint > 1 then err1[3 := last_constraint - 1]
             else err1)
      in fold (\<lambda>error norm_error_coordinates. norm_error_coordinates + error * error)
           err_coordinates 0)"

text \<open>The violation of one coordinate, as the specification words it.\<close>

definition spec_violation :: "real \<Rightarrow> real" where
  "spec_violation coord = (if coord > 1 then coord - 1 else if coord < 0 then \<bar>coord\<bar> else 0)"

text \<open>
  What it means for \<open>x\<close> to be a solution of the system \<open>m x = b\<close> of \<open>dim\<close> equations.
\<close>

definition is_solution :: "real list list \<Rightarrow> real list \<Rightarrow> real list \<Rightarrow> bool" where
  "is_solution m b x \<longleftrightarrow>
     length x = dim \<and> (\<forall>i<dim. (\<Sum>j<dim. m ! i ! j * x ! j) = b ! i)"

subsection \<open>Mesh and state of the reconstruction\<close>

text \<open>\<^verbatim>\<open>Point<3>\<close>; its default constructor gives the origin.\<close>

datatype point = Point real real real

definition Point_default :: point where
  "Point_default = Point 0 0 0"

fun point_add :: "point \<Rightarrow> point \<Rightarrow> point" where
  "point_add (Point x y z) (Point x' y' z') = Point (x + x') (y + y') (z + z')"

fun point_sub :: "point \<Rightarrow> point \<Rightarrow> point" where
  "point_sub (Point x y z) (Point x' y' z') = Point (x - x') (y - y') (z - z')"

fun point_scale :: "real \<Rightarrow> point \<Rightarrow> point" where
  "point_scale a (Point x y z) = Point (a * x) (a * y) (a * z)"

text \<open>
  A vertex of a cell, as the cell accessor shows it: \<^verbatim>\<open>cell->vertex_index(v)\<close>,
  \<^verbatim>\<open>cell->vertex_dof_index(v, 0)\<close> and \<^verbatim>\<open>cell->vertex(v)\<close>. The mesh is a simplex mesh
  of dimension three, so a cell has four vertices. \<open>cell_index\<close> is the position of the cell
  in the triangulation, which orders the cell iterators.
\<close>

record vertex =
  vertex_index :: nat
  vertex_dof_index :: nat
  vertex_point :: point

datatype cell = Cell (cell_index: nat) vertex vertex vertex vertex

fun vertices :: "cell \<Rightarrow> vertex list" where
  "vertices (Cell k a b c d) = [a, b, c, d]"

definition n_vertices :: "cell \<Rightarrow> nat" where
  "n_vertices c = length (vertices c)"

datatype FEMSearchType = local_search | global_search

record parameters =
  fem_cost_function :: FEMCostFunction
  search_type :: FEMSearchType
  search_proximity_level :: nat
  dof_handler_file :: string
  nodal_counts_file :: "string list"

text \<open>
  The members of \<^verbatim>\<open>RPTFEMReconstruction\<close> that the localisation reads and writes. The
  \<^verbatim>\<open>dof_handler\<close> is the list of its active cells, in the order of
  \<^verbatim>\<open>active_cell_iterators()\<close>.
\<close>

record rpt_state =
  n_detector :: nat
  nodal_counts :: "real list list"
  dof_handler :: "cell list"
  previous_position_cell :: cell
  found_positions :: "point list"

subsection \<open>Cost function: \<^verbatim>\<open>calculate_cost\<close>\<close>

definition interpolated_count :: "rpt_state \<Rightarrow> cell \<Rightarrow> real list \<Rightarrow> real \<Rightarrow> nat \<Rightarrow> real" where
  "interpolated_count st c reference_location last_constraint d =
     fold (\<lambda>i count. count +
              nodal_counts st ! d ! vertex_dof_index (vertices c ! (i + 1)) *
              reference_location ! i)
          [0..<dim]
          (0 + nodal_counts st ! d ! vertex_dof_index (vertices c ! 0) * last_constraint)"

definition calculate_cost ::
  "parameters \<Rightarrow> rpt_state \<Rightarrow> cell \<Rightarrow> real list \<Rightarrow> real \<Rightarrow> real list \<Rightarrow> real" where
  "calculate_cost p st c reference_location last_constraint experimental_count =
     (case fem_cost_function p of
        absolute \<Rightarrow>
          fold (\<lambda>d cost.
                  let count = interpolated_count st c reference_location last_constraint d
                              - experimental_count ! d
                  in cost + count * count)
               [0..<n_detector st] 0
      | relative \<Rightarrow>
          fold (\<lambda>d cost.
                  let count = interpolated_count st c reference_location last_constraint d
                              - experimental_count ! d;
                      denom_d = 1 / (experimental_count ! d * experimental_count ! d)
                  in cost + count * count * denom_d)
               [0..<n_detector st] 0)"

subsection \<open>The loop over candidate cells\<close>

text \<open>The largest finite \<^verbatim>\<open>double\<close>.\<close>

definition DBL_MAX :: real where
  "DBL_MAX = 2 ^ 1024 - 2 ^ 971"

text \<open>
  \<^verbatim>\<open>count_from_all_detectors[d][v] = nodal_counts[d][cell->vertex_dof_index(v, 0)]\<close> for
  every detector and every vertex of the cell.
\<close>

definition count_from_all_detectors :: "rpt_state \<Rightarrow> cell \<Rightarrow> error + real list list" where
  "count_from_all_detectors st c =
     (if length (nodal_counts st) < n_detector st then Inl OutOfRange
      else if \<not> list_all (\<lambda>d. list_all (\<lambda>v. vertex_dof_index v < length (nodal_counts st ! d))
                                  (vertices c))
                    [0..<n_detector st]
        then Inl OutOfRange
      else Inr (map (\<lambda>d. map (\<lambda>v. nodal_counts st ! d ! vertex_dof_index v) (vertices c))
                    [0..<n_detector st]))"

text \<open>The local variables of a search that the loop over the cells updates.\<close>

record search_vars =
  max_cost_function :: real
  position_found :: bool
  real_location :: point

definition initial_search_vars :: search_vars where
  "initial_search_vars =
     \<lparr>max_cost_function = DBL_MAX, position_found = False, real_location = Point_default\<rparr>"

definition evaluate_real_location :: "cell \<Rightarrow> real list \<Rightarrow> point \<Rightarrow> point" where
  "evaluate_real_location c reference_location loc =
     fold (\<lambda>v real_location.
             if v = 0 then vertex_point (vertices c ! v)
             else point_add real_location
                    (point_scale (reference_location ! (v - 1))
                       (point_sub (vertex_point (vertices c ! v))
                                  (vertex_point (vertices c ! 0)))))
          [0..<n_vertices c] loc"

text \<open>
  The body of the loop over the cells, which the global and the local search share word
  for word: gather the counts, solve for the reference coordinates, check them against the
  extrapolation limit, and keep the cell when its cost is strictly below the best so far.
  A failure of the solve is not caught and leaves the loop.
\<close>

definition examine_cell ::
  "parameters \<Rightarrow> real list \<Rightarrow> real \<Rightarrow> cell \<Rightarrow> search_vars \<times> rpt_state
     \<Rightarrow> error + search_vars \<times> rpt_state" where
  "examine_cell p experimental_count tol_reference_location c acc =
     (case count_from_all_detectors (snd acc) c of
        Inl e \<Rightarrow> Inl e
      | Inr counts \<Rightarrow>
          (case assemble_matrix_and_rhs counts experimental_count (fem_cost_function p) of
             Inl e \<Rightarrow> Inl e
           | Inr reference_location \<Rightarrow>
               (let last_constraint_reference_location =
                      1 - reference_location ! 0 - reference_location ! 1 - reference_location ! 2;
                    norm_error_coordinates =
                      calculate_reference_location_error reference_location
                        last_constraint_reference_location
                in if norm_error_coordinates < tol_reference_location
                   then (let calculated_cost =
                               calculate_cost p (snd acc) c reference_location
                                 last_constraint_reference_location experimental_count
                         in if calculated_cost < max_cost_function (fst acc)
                            then Inr ((fst acc)\<lparr>max_cost_function := calculated_cost,
                                        position_found := True,
                                        real_location :=
                                          evaluate_real_location c reference_location
                                            (real_location (fst acc))\<rparr>,
                                      (snd acc)\<lparr>previous_position_cell := c\<rparr>)
                            else Inr acc)
                   else Inr acc)))"

fun examine_cells ::
  "parameters \<Rightarrow> real list \<Rightarrow> real \<Rightarrow> cell list \<Rightarrow> search_vars \<times> rpt_state
     \<Rightarrow> error + search_vars \<times> rpt_state" where
  "examine_cells p experimental_count tol [] acc = Inr acc"
| "examine_cells p experimental_count tol (c # cs) acc =
     (case examine_cell p experimental_count tol c acc of
        Inl e \<Rightarrow> Inl e
      | Inr acc' \<Rightarrow> examine_cells p experimental_count tol cs acc')"

text \<open>
  What the examination of a cell yields, whatever the best cost so far is: a failure, or
  nothing when the reference coordinates are beyond the extrapolation limit, or the cost and
  the real location of the particle in the cell.
\<close>

definition cell_outcome ::
  "parameters \<Rightarrow> rpt_state \<Rightarrow> real list \<Rightarrow> real \<Rightarrow> cell \<Rightarrow> error + (real \<times> point) option" where
  "cell_outcome p st experimental_count tol_reference_location c =
     (case count_from_all_detectors st c of
        Inl e \<Rightarrow> Inl e
      | Inr counts \<Rightarrow>
          (case assemble_matrix_and_rhs counts experimental_count (fem_cost_function p) of
             Inl e \<Rightarrow> Inl e
           | Inr reference_location \<Rightarrow>
               (let last_constraint_reference_location =
                      1 - reference_location ! 0 - reference_location ! 1 - reference_location ! 2
                in if calculate_reference_location_error reference_location
                        last_constraint_reference_location < tol_reference_location
                   then Inr (Some (calculate_cost p st c reference_location
                                     last_constraint_reference_location experimental_count,
                                   evaluate_real_location c reference_location Point_default))
                   else Inr None)))"

text \<open>The cost of a cell that passes the validity check, if it does.\<close>

definition valid_cost :: "parameters \<Rightarrow> rpt_state \<Rightarrow> real list \<Rightarrow> real \<Rightarrow> cell \<Rightarrow> real option" where
  "valid_cost p st experimental_count tol c =
     (case cell_outcome p st experimental_count tol c of
        Inr (Some (cost, loc)) \<Rightarrow> Some cost
      | _ \<Rightarrow> None)"

definition valid_location :: "parameters \<Rightarrow> rpt_state \<Rightarrow> real list \<Rightarrow> real \<Rightarrow> cell \<Rightarrow> point" where
  "valid_location p st experimental_count tol c =
     (case cell_outcome p st experimental_count tol c of
        Inr (Some (cost, loc)) \<Rightarrow> loc
      | _ \<Rightarrow> Point_default)"

subsection \<open>Global search: \<^verbatim>\<open>find_position_global_search\<close>\<close>

definition find_position_global_search ::
  "parameters \<Rightarrow> real list \<Rightarrow> real \<Rightarrow> rpt_state \<Rightarrow> error + bool \<times> rpt_state" where
  "find_position_global_search p experimental_count tol_reference_location st =
     (case examine_cells p experimental_count tol_reference_location (dof_handler st)
             (initial_search_vars, st) of
        Inl e \<Rightarrow> Inl e
      | Inr (vars, st') \<Rightarrow>
          Inr (position_found vars,
               st'\<lparr>found_positions := found_positions st' @ [real_location vars]\<rparr>))"

subsection \<open>Local search: \<^verbatim>\<open>find_position_local_search\<close>\<close>

text \<open>
  Modelled from the spec: \<^verbatim>\<open>GridTools::find_cells_adjacent_to_vertex\<close> belongs to the
  deal.II library; it gives the active cells that have the vertex among their vertices
  (the ``vertex-adjacent neighbours'').
\<close>

definition find_cells_adjacent_to_vertex :: "cell list \<Rightarrow> nat \<Rightarrow> cell list" where
  "find_cells_adjacent_to_vertex dh v_index =
     filter (\<lambda>c. v_index \<in> set (map vertex_index (vertices c))) dh"

text \<open>
  A \<^verbatim>\<open>std::set\<close> of cell iterators: a list in ascending order of the cells, with one
  entry for each cell.
\<close>

fun set_insert :: "cell \<Rightarrow> cell list \<Rightarrow> cell list" where
  "set_insert c [] = [c]"
| "set_insert c (x # xs) =
     (if cell_index c < cell_index x then c # x # xs
      else if cell_index c = cell_index x then x # xs
      else x # set_insert c xs)"

definition set_contains :: "cell list \<Rightarrow> cell \<Rightarrow> bool" where
  "set_contains s c \<longleftrightarrow> cell_index c \<in> set (map cell_index s)"

text \<open>
  \<^verbatim>\<open>for v < cell->n_vertices(): for adjacent_cell in find_cells_adjacent_to_vertex(...):
  all_adjacent_cells.insert(adjacent_cell)\<close>
\<close>

definition insert_adjacent_cells :: "cell list \<Rightarrow> cell \<Rightarrow> cell list \<Rightarrow> cell list" where
  "insert_adjacent_cells dh c all_adjacent_cells =
     fold (\<lambda>v s. fold set_insert (find_cells_adjacent_to_vertex dh (vertex_index v)) s)
          (vertices c) all_adjacent_cells"

text \<open>
  One pass of the loop over \<^verbatim>\<open>previous_adjacent_cells\<close>. The test
  \<^verbatim>\<open>*previous_main_cells.find(current_main_cell) != current_main_cell\<close> is false for a cell
  of \<^verbatim>\<open>previous_main_cells\<close>. For another cell \<^verbatim>\<open>find\<close> gives the end of the set, which
  C++ leaves undefined to dereference; the model takes the test to hold there, as the
  comparison with the cell intends. The assignment
  \<^verbatim>\<open>previous_main_cells = previous_adjacent_cells\<close> stands inside this loop, after the test,
  so that from the second cell of a pass on every cell is found in the set.
\<close>

definition expand_main_cell ::
  "cell list \<Rightarrow> cell list \<Rightarrow> cell \<Rightarrow> cell list \<times> cell list \<Rightarrow> cell list \<times> cell list" where
  "expand_main_cell dh previous_adjacent_cells current_main_cell sets =
     (let all_adjacent_cells = fst sets; previous_main_cells = snd sets
      in (if \<not> set_contains previous_main_cells current_main_cell
          then insert_adjacent_cells dh current_main_cell all_adjacent_cells
          else all_adjacent_cells,
          previous_adjacent_cells))"

definition proximity_level_step ::
  "cell list \<Rightarrow> cell list \<times> cell list \<Rightarrow> cell list \<times> cell list" where
  "proximity_level_step dh sets =
     (let previous_adjacent_cells = fst sets
      in fold (expand_main_cell dh previous_adjacent_cells) previous_adjacent_cells sets)"

definition candidate_cells :: "cell list \<Rightarrow> cell \<Rightarrow> nat \<Rightarrow> cell list" where
  "candidate_cells dh c proximity =
     (let all_adjacent_cells = insert_adjacent_cells dh c (set_insert c [])
      in if proximity > 1
         then fst (fold (\<lambda>proximity_level. proximity_level_step dh) [2..<proximity + 1]
                     (all_adjacent_cells, set_insert c []))
         else all_adjacent_cells)"

definition find_position_local_search ::
  "parameters \<Rightarrow> real list \<Rightarrow> real \<Rightarrow> cell \<Rightarrow> rpt_state \<Rightarrow> error + bool \<times> rpt_state" where
  "find_position_local_search p experimental_count tol_reference_location c st =
     (case examine_cells p experimental_count tol_reference_location
             (candidate_cells (dof_handler st) c (search_proximity_level p))
             (initial_search_vars, st) of
        Inl e \<Rightarrow> Inl e
      | Inr (vars, st') \<Rightarrow>
          (if position_found vars
           then Inr (True, st'\<lparr>found_positions := found_positions st' @ [real_location vars]\<rparr>)
           else Inr (False, st')))"

subsection \<open>Trajectory driver: \<^verbatim>\<open>trajectory\<close>\<close>

text \<open>
  The loops over \<^verbatim>\<open>all_experimental_counts\<close>. The rows are those that
  \<^verbatim>\<open>read_detectors_counts\<close> has read, and the tolerance is the one computed from the mesh
  parameters before the loops; both are arguments here. \<open>local_first_step\<close> is the body of
  the loop that prefers the local search: its flag \<^verbatim>\<open>adjacent_cell_search\<close> starts false,
  which forces the global search on the first observation.
\<close>

definition local_first_step ::
  "parameters \<Rightarrow> real \<Rightarrow> real list \<Rightarrow> bool \<times> rpt_state \<Rightarrow> error + bool \<times> rpt_state" where
  "local_first_step p tol experimental_counts acc =
     (case (if fst acc
            then find_position_local_search p experimental_counts tol
                   (previous_position_cell (snd acc)) (snd acc)
            else Inr acc) of
        Inl e \<Rightarrow> Inl e
      | Inr (adjacent_cell_search, st1) \<Rightarrow>
          (if \<not> adjacent_cell_search
           then find_position_global_search p experimental_counts tol st1
           else Inr (adjacent_cell_search, st1)))"

fun trajectory_local ::
  "parameters \<Rightarrow> real \<Rightarrow> real list list \<Rightarrow> bool \<times> rpt_state \<Rightarrow> error + rpt_state" where
  "trajectory_local p tol [] acc = Inr (snd acc)"
| "trajectory_local p tol (experimental_counts # rest) acc =
     (case local_first_step p tol experimental_counts acc of
        Inl e \<Rightarrow> Inl e
      | Inr acc' \<Rightarrow> trajectory_local p tol rest acc')"

fun trajectory_global ::
  "parameters \<Rightarrow> real \<Rightarrow> real list list \<Rightarrow> rpt_state \<Rightarrow> error + rpt_state" where
  "trajectory_global p tol [] st = Inr st"
| "trajectory_global p tol (experimental_counts # rest) st =
     (case find_position_global_search p experimental_counts tol st of
        Inl e \<Rightarrow> Inl e
      | Inr (found, st1) \<Rightarrow> trajectory_global p tol rest st1)"

definition trajectory ::
  "parameters \<Rightarrow> real \<Rightarrow> real list list \<Rightarrow> rpt_state \<Rightarrow> error + rpt_state" where
  "trajectory p tol_reference_location all_experimental_counts st =
     (case search_type p of
        local_search \<Rightarrow>
          trajectory_local p tol_reference_location all_experimental_counts (False, st)
      | global_search \<Rightarrow> trajectory_global p tol_reference_location all_experimental_counts st)"

subsection \<open>Checkpoint: \<^verbatim>\<open>checkpoint\<close> and \<^verbatim>\<open>load_from_checkpoint\<close>\<close>

text \<open>
  The files, by name. An archive holds what was saved into it: the \<^verbatim>\<open>dof_handler\<close> or
  the nodal counts of one detector. Its text format is opaque.
\<close>

datatype archive = Dof_archive "cell list" | Counts_archive "real list"

type_synonym files = "string \<Rightarrow> archive option"

text \<open>
  \<^verbatim>\<open>Utilities::to_string(i, 2)\<close> of deal.II: the decimal digits of the number, with zeros
  in front up to two characters.
\<close>

definition digit_char :: "nat \<Rightarrow> char" where
  "digit_char d = ''0123456789'' ! d"

fun decimal :: "nat \<Rightarrow> string" where
  "decimal n = (if n < 10 then [digit_char n] else decimal (n div 10) @ [digit_char (n mod 10)])"

declare decimal.simps [simp del]

definition to_string :: "nat \<Rightarrow> nat \<Rightarrow> string" where
  "to_string n digits =
     (let lc_string = decimal n
      in replicate (digits - length lc_string) (CHR ''0'') @ lc_string)"

text \<open>Reading the number back from its digits, to tell the file names apart.\<close>

definition digit_value :: "char \<Rightarrow> nat" where
  "digit_value c = of_char c - 48"

definition read_decimal :: "string \<Rightarrow> nat" where
  "read_decimal s = foldl (\<lambda>acc c. 10 * acc + digit_value c) 0 s"

definition counts_filename :: "nat \<Rightarrow> string" where
  "counts_filename i = ''temp_nodal_counts_detector'' @ to_string i 2 @ ''.counts''"

definition checkpoint :: "rpt_state \<Rightarrow> files \<Rightarrow> error + files" where
  "checkpoint st fs =
     (if length (nodal_counts st) < n_detector st then Inl OutOfRange
      else Inr (fold (\<lambda>i fs'. fs'(counts_filename i \<mapsto> Counts_archive (nodal_counts st ! i)))
                  [0..<n_detector st]
                  (fs(''temp_dof_handler.dof'' \<mapsto> Dof_archive (dof_handler st)))))"

text \<open>
  The loop over \<^verbatim>\<open>nodal_counts_file\<close>: an archive on a file that is missing, or that
  holds something else, throws.
\<close>

fun load_nodal_counts :: "files \<Rightarrow> string list \<Rightarrow> error + real list list" where
  "load_nodal_counts fs [] = Inr []"
| "load_nodal_counts fs (name # names) =
     (case fs name of
        Some (Counts_archive counts_per_detector) \<Rightarrow>
          (case load_nodal_counts fs names of
             Inl e \<Rightarrow> Inl e
           | Inr rest \<Rightarrow> Inr (counts_per_detector # rest))
      | _ \<Rightarrow> Inl ExcIO)"

definition load_from_checkpoint :: "parameters \<Rightarrow> files \<Rightarrow> rpt_state \<Rightarrow> error + rpt_state" where
  "load_from_checkpoint p fs st =
     (let st1 = st\<lparr>n_detector := length (nodal_counts_file p)\<rparr>
      in case fs (dof_handler_file p) of
           Some (Dof_archive dh) \<Rightarrow>
             (case load_nodal_counts fs (nodal_counts_file p) of
                Inl e \<Rightarrow> Inl e
              | Inr counts \<Rightarrow> Inr (st1\<lparr>dof_handler := dh, nodal_counts := counts\<rparr>))
         | _ \<Rightarrow> Inl ExcIO)"

text \<open>
  \<^verbatim>\<open>rpt_fem_reconstruct\<close>: load the checkpoint, then find the positions; the positions
  found are those exported.
\<close>

definition rpt_fem_reconstruct ::
  "parameters \<Rightarrow> files \<Rightarrow> real \<Rightarrow> real list list \<Rightarrow> rpt_state \<Rightarrow> error + rpt_state" where
  "rpt_fem_reconstruct p fs tol_reference_location all_experimental_counts st =
     (case load_from_checkpoint p fs st of
        Inl e \<Rightarrow> Inl e
      | Inr st1 \<Rightarrow> trajectory p tol_reference_location all_experimental_counts st1)"

text \<open>The system of a cell can be set up and solved for an observation.\<close>

definition cell_solvable :: "parameters \<Rightarrow> rpt_state \<Rightarrow> real list \<Rightarrow> cell \<Rightarrow> bool" where
  "cell_solvable p st experimental_count c \<longleftrightarrow>
     (case count_from_all_detectors st c of
        Inl e \<Rightarrow> False
      | Inr counts \<Rightarrow>
          (case assemble_matrix_and_rhs counts experimental_count (fem_cost_function p) of
             Inl e \<Rightarrow> False
           | Inr reference_location \<Rightarrow> True))"

subsection \<open>A small mesh\<close>

text \<open>
  Four detectors and eight nodes. The tetrahedra \<open>cell_A\<close> and \<open>cell_B\<close> share a face,
  \<open>cell_C\<close> touches \<open>cell_B\<close> in one node. A node has the same vertex index and degree of
  freedom.
\<close>

definition node :: "nat \<Rightarrow> point \<Rightarrow> vertex" where
  "node k x = \<lparr>vertex_index = k, vertex_dof_index = k, vertex_point = x\<rparr>"

definition cell_A :: cell where
  "cell_A = Cell 0 (node 0 (Point 0 0 0)) (node 1 (Point 1 0 0))
                   (node 2 (Point 0 1 0)) (node 3 (Point 0 0 1))"

definition cell_B :: cell where
  "cell_B = Cell 1 (node 1 (Point 1 0 0)) (node 2 (Point 0 1 0))
                   (node 3 (Point 0 0 1)) (node 4 (Point 1 1 1))"

definition cell_C :: cell where
  "cell_C = Cell 2 (node 4 (Point 1 1 1)) (node 5 (Point 2 1 1))
                   (node 6 (Point 1 2 1)) (node 7 (Point 1 1 2))"

definition example_parameters :: parameters where
  "example_parameters =
     \<lparr>fem_cost_function = absolute, search_type = local_search, search_proximity_level = 1,
      dof_handler_file = ''temp_dof_handler.dof'',
      nodal_counts_file = map counts_filename [0..<4]\<rparr>"

definition example_state :: rpt_state where
  "example_state =
     \<lparr>n_detector = 4,
      nodal_counts = [[10, 20, 20, 20, 30, 40, 30, 30],
                      [5, 5, 15, 15, 25, 25, 35, 25],
                      [1, 2, 3, 5, 8, 9, 10, 13],
                      [2, 4, 4, 7, 9, 12, 10, 11]],
      dof_handler = [cell_A, cell_B],
      previous_position_cell = cell_A,
      found_positions = []\<rparr>"

text \<open>
  The extrapolation limit that \<^verbatim>\<open>trajectory\<close> starts from, and observations: one between
  \<open>cell_A\<close> and \<open>cell_B\<close>, one inside \<open>cell_A\<close>, two inside \<open>cell_C\<close>, and one far from
  every cell.
\<close>

definition default_tol :: real where
  "default_tol = 5 / 1000"

definition observation_AB :: "real list" where
  "observation_AB = [39 / 2, 23 / 2, 33 / 10, 101 / 20]"

definition observation_A :: "real list" where
  "observation_A = [35 / 2, 10, 11 / 4, 17 / 4]"

definition observation_C :: "real list" where
  "observation_C = [33, 27, 9, 10]"

definition observation_C' :: "real list" where
  "observation_C' = [31, 28, 9, 10]"

definition observation_far :: "real list" where
  "observation_far = [100, 1, 50, 3]"

definition example_mesh :: rpt_state where
  "example_mesh = example_state\<lparr>dof_handler := [cell_A, cell_B, cell_C]\<rparr>"

text \<open>
  A mesh with a cell on whose four nodes every detector counts the same, and the mesh of
  one cell with two detectors.
\<close>

definition cell_flat :: cell where
  "cell_flat = Cell 3 (node 8 (Point 5 5 5)) (node 9 (Point 6 5 5))
                      (node 10 (Point 5 6 5)) (node 11 (Point 5 5 6))"

definition flat_mesh :: rpt_state where
  "flat_mesh =
     \<lparr>n_detector = 4,
      nodal_counts = [[10, 20, 20, 20, 30, 40, 30, 30, 1, 1, 1, 1],
                      [5, 5, 15, 15, 25, 25, 35, 25, 1, 1, 1, 1],
                      [1, 2, 3, 5, 8, 9, 10, 13, 2, 2, 2, 2],
                      [2, 4, 4, 7, 9, 12, 10, 11, 3, 3, 3, 3]],
      dof_handler = [cell_A, cell_flat],
      previous_position_cell = cell_A,
      found_positions = []\<rparr>"

definition two_detector_mesh :: rpt_state where
  "two_detector_mesh =
     \<lparr>n_detector = 2,
      nodal_counts = [[10, 20, 20, 20], [5, 5, 15, 15]],
      dof_handler = [cell_A],
      previous_position_cell = cell_A,
      found_positions = []\<rparr>"

text \<open>
  The files that \<^verbatim>\<open>checkpoint\<close> writes for \<open>example_state\<close>, and parameters that name
  three of its four files of counts.
\<close>

definition no_files :: files where
  "no_files = (\<lambda>name. None)"

definition example_files :: files where
  "example_files = (case checkpoint example_state no_files of Inr fs \<Rightarrow> fs | Inl e \<Rightarrow> no_files)"

definition three_files_parameters :: parameters where
  "three_files_parameters = example_parameters\<lparr>nodal_counts_file := map counts_filename [0..<3]\<rparr>"

text \<open>
  The state that loading those three files gives, and an observation with three counts.
\<close>

definition loaded_state :: rpt_state where
  "loaded_state = example_state\<lparr>n_detector := 3, nodal_counts := take 3 (nodal_counts example_state)\<rparr>"

definition observation_A3 :: "real list" where
  "observation_A3 = [35 / 2, 10, 11 / 4]"

section \<open>Properties\<close>

lemma sigma_loop_sum: "sigma_loop n f = (\<Sum>d<n. f d)"
proof -
  have "fold (\<lambda>d sigma. sigma + f d) [0..<n] a = a + (\<Sum>d<n. f d)" for a
    by (induction n arbitrary: a) (simp_all add: add.assoc)
  then show ?thesis by (simp add: sigma_loop_def)
qed

subsection \<open>Small lists\<close>

lemma length3_cases: "length r = 3 \<Longrightarrow> \<exists>a b c. r = [a,b,c]"
  by (metis (no_types) length_0_conv length_Suc_conv numeral_3_eq_3)

lemma upt3: "[0..<3] = [0,1,2]"
  by (simp add: upt_rec)

lemma lessThan3: "{..<3::nat} = {0,1,2}"
  by auto

lemma all_less3: "(\<forall>i<3::nat. P i) \<longleftrightarrow> P 0 \<and> P 1 \<and> P 2"
proof -
  have "i < 3 \<longleftrightarrow> i = 0 \<or> i = 1 \<or> i = 2" for i :: nat by arith
  then show ?thesis by auto
qed

lemma validity_explicit:
  "calculate_reference_location_error [a,b,c] l = (spec_violation a)\<^sup>2 + (spec_violation b)\<^sup>2 + (spec_violation c)\<^sup>2 + (spec_violation l)\<^sup>2"
  by (simp add: calculate_reference_location_error_def dim_def upt3 spec_violation_def power2_eq_square Let_def numeral_3_eq_3)

lemma spec_violation_nonneg: "0 \<le> spec_violation x"
  by (simp add: spec_violation_def)

lemma spec_violation_zero: "spec_violation x = 0 \<longleftrightarrow> 0 \<le> x \<and> x \<le> 1"
  by (auto simp add: spec_violation_def)

subsection \<open>The dense solve\<close>

lemma matrix3_cases:
  assumes "length m = 3" "\<forall>row\<in>set m. length row = 3"
  shows "\<exists>a b c d e f g h k. m = [[a,b,c],[d,e,f],[g,h,k]]"
proof -
  from assms(1) obtain r0 r1 r2 where m: "m = [r0, r1, r2]"
    using length3_cases [of m] by auto
  with assms(2) have "length r0 = 3" "length r1 = 3" "length r2 = 3" by auto
  then show ?thesis
    unfolding m using length3_cases [of r0] length3_cases [of r1] length3_cases [of r2] by auto
qed

lemma cramer_explicit:
  "lu_solve [[a,b,c],[d,e,f],[g,h,k]] [p,q,r] =
     (let D = a * (e * k - f * h) - b * (d * k - f * g) + c * (d * h - e * g) in
      if D = 0 then None
      else Some [(p * (e * k - f * h) - b * (q * k - f * r) + c * (q * h - e * r)) / D,
                 (a * (q * k - f * r) - p * (d * k - f * g) + c * (d * r - q * g)) / D,
                 (a * (e * r - q * h) - b * (d * r - q * g) + p * (d * h - e * g)) / D])"
  by (simp add: lu_solve_def det3_def replace_column_def dim_def upt3 Let_def)

lemma cramer_row:
  fixes D :: real
  assumes "D \<noteq> 0" "a * n0 + b * n1 + c * n2 = p * D"
  shows "a * (n0 / D) + b * (n1 / D) + c * (n2 / D) = p"
proof -
  have "a * (n0 / D) + b * (n1 / D) + c * (n2 / D) = (a * n0 + b * n1 + c * n2) / D"
    by (simp add: add_divide_distrib)
  with assms show ?thesis by simp
qed

lemma lu_solve_sound:
  assumes "lu_solve m b = Some x" "length m = 3" "\<forall>row\<in>set m. length row = 3" "length b = 3"
  shows "is_solution m b x"
proof -
  obtain a11 a12 a13 a21 a22 a23 a31 a32 a33 where m: "m = [[a11,a12,a13],[a21,a22,a23],[a31,a32,a33]]"
    using matrix3_cases [OF assms(2,3)] by auto
  obtain p q r where b: "b = [p,q,r]" using length3_cases [OF assms(4)] by auto
  define D where "D = a11 * (a22 * a33 - a23 * a32) - a12 * (a21 * a33 - a23 * a31) + a13 * (a21 * a32 - a22 * a31)"
  define n0 where "n0 = p * (a22 * a33 - a23 * a32) - a12 * (q * a33 - a23 * r) + a13 * (q * a32 - a22 * r)"
  define n1 where "n1 = a11 * (q * a33 - a23 * r) - p * (a21 * a33 - a23 * a31) + a13 * (a21 * r - q * a31)"
  define n2 where "n2 = a11 * (a22 * r - q * a32) - a12 * (a21 * r - q * a31) + p * (a21 * a32 - a22 * a31)"
  from assms(1) have D: "D \<noteq> 0" and x: "x = [n0 / D, n1 / D, n2 / D]"
    unfolding m b cramer_explicit D_def [symmetric] n0_def n1_def n2_def
    by (auto simp: Let_def split: if_splits)
  have "a11 * n0 + a12 * n1 + a13 * n2 = p * D"
    by (simp add: D_def n0_def n1_def n2_def algebra_simps)
  then have r1: "a11 * (x ! 0) + a12 * (x ! 1) + a13 * (x ! 2) = p"
    using cramer_row [OF D] by (simp add: x)
  have "a21 * n0 + a22 * n1 + a23 * n2 = q * D"
    by (simp add: D_def n0_def n1_def n2_def algebra_simps)
  then have r2: "a21 * (x ! 0) + a22 * (x ! 1) + a23 * (x ! 2) = q"
    using cramer_row [OF D] by (simp add: x)
  have "a31 * n0 + a32 * n1 + a33 * n2 = r * D"
    by (simp add: D_def n0_def n1_def n2_def algebra_simps)
  then have r3: "a31 * (x ! 0) + a32 * (x ! 1) + a33 * (x ! 2) = r"
    using cramer_row [OF D] by (simp add: x)
  have "length x = 3" by (simp add: x)
  then show ?thesis
    using r1 r2 r3 by (simp add: is_solution_def dim_def all_less3 lessThan3 m b)
qed

lemma lu_solve_unique:
  assumes "lu_solve m b = Some x" "length m = 3" "\<forall>row\<in>set m. length row = 3" "length b = 3"
    and "is_solution m b y"
  shows "y = x"
proof -
  obtain a11 a12 a13 a21 a22 a23 a31 a32 a33 where m: "m = [[a11,a12,a13],[a21,a22,a23],[a31,a32,a33]]"
    using matrix3_cases [OF assms(2,3)] by auto
  obtain p q r where b: "b = [p,q,r]" using length3_cases [OF assms(4)] by auto
  from assms(5) have "length y = 3" by (simp add: is_solution_def dim_def)
  then obtain y0 y1 y2 where y: "y = [y0, y1, y2]" using length3_cases [of y] by auto
  from assms(5) have p: "p = a11 * y0 + a12 * y1 + a13 * y2"
    and q: "q = a21 * y0 + a22 * y1 + a23 * y2"
    and r: "r = a31 * y0 + a32 * y1 + a33 * y2"
    by (simp_all add: is_solution_def dim_def all_less3 lessThan3 m b y)
  define D where "D = a11 * (a22 * a33 - a23 * a32) - a12 * (a21 * a33 - a23 * a31) + a13 * (a21 * a32 - a22 * a31)"
  define n0 where "n0 = p * (a22 * a33 - a23 * a32) - a12 * (q * a33 - a23 * r) + a13 * (q * a32 - a22 * r)"
  define n1 where "n1 = a11 * (q * a33 - a23 * r) - p * (a21 * a33 - a23 * a31) + a13 * (a21 * r - q * a31)"
  define n2 where "n2 = a11 * (a22 * r - q * a32) - a12 * (a21 * r - q * a31) + p * (a21 * a32 - a22 * a31)"
  from assms(1) have D: "D \<noteq> 0" and x: "x = [n0 / D, n1 / D, n2 / D]"
    unfolding m b cramer_explicit D_def [symmetric] n0_def n1_def n2_def
    by (auto simp: Let_def split: if_splits)
  have "n0 = y0 * D" "n1 = y1 * D" "n2 = y2 * D"
    by (simp_all add: D_def n0_def n1_def n2_def p q r algebra_simps)
  with D show ?thesis by (simp add: x y)
qed

lemma sys_matrix_shape:
  "length (sys_matrix_of mode vc obs) = dim"
  "\<forall>row\<in>set (sys_matrix_of mode vc obs). length row = dim"
  "length (sys_rhs_of mode vc obs) = dim"
  by (cases mode; simp add: sys_matrix_of_def sys_rhs_of_def sys_matrix_absolute_def
        sys_matrix_relative_def sys_rhs_absolute_def sys_rhs_relative_def Let_def)+

subsection \<open>The candidate cells of the local search\<close>

lemma set_insert_superset: "set s \<subseteq> set (set_insert c s)"
  by (induction s) auto

lemma fold_set_insert_superset: "set s \<subseteq> set (fold set_insert cs s)"
proof (induction cs arbitrary: s)
  case Nil
  show ?case by simp
next
  case (Cons c cs)
  have "set s \<subseteq> set (set_insert c s)" by (rule set_insert_superset)
  also have "\<dots> \<subseteq> set (fold set_insert cs (set_insert c s))" by (rule Cons.IH)
  finally show ?case by simp
qed

lemma insert_adjacent_cells_superset: "set s \<subseteq> set (insert_adjacent_cells dh c s)"
proof -
  have "set s \<subseteq> set (fold (\<lambda>v s. fold set_insert (f v) s) vs s)" for f :: "vertex \<Rightarrow> cell list" and vs
  proof (induction vs arbitrary: s)
    case Nil
    show ?case by simp
  next
    case (Cons v vs)
    have "set s \<subseteq> set (fold set_insert (f v) s)" by (rule fold_set_insert_superset)
    also have "\<dots> \<subseteq> set (fold (\<lambda>v s. fold set_insert (f v) s) vs (fold set_insert (f v) s))"
      by (rule Cons.IH)
    finally show ?case by simp
  qed
  then show ?thesis by (simp add: insert_adjacent_cells_def)
qed

lemma expand_main_cell_superset:
  "set (fst sets) \<subseteq> set (fst (expand_main_cell dh pa cur sets))"
  by (simp add: expand_main_cell_def Let_def insert_adjacent_cells_superset)

lemma fold_expand_main_cell_superset:
  "set (fst sets) \<subseteq> set (fst (fold (expand_main_cell dh pa) cs sets))"
proof (induction cs arbitrary: sets)
  case Nil
  show ?case by simp
next
  case (Cons c cs)
  have "set (fst sets) \<subseteq> set (fst (expand_main_cell dh pa c sets))"
    by (rule expand_main_cell_superset)
  also have "\<dots> \<subseteq> set (fst (fold (expand_main_cell dh pa) cs (expand_main_cell dh pa c sets)))"
    by (rule Cons.IH)
  finally show ?case by simp
qed

lemma proximity_level_step_superset:
  "set (fst sets) \<subseteq> set (fst (proximity_level_step dh sets))"
  by (simp add: proximity_level_step_def Let_def fold_expand_main_cell_superset)

subsection \<open>The loop over the cells\<close>

lemma evaluate_real_location_start:
  "evaluate_real_location c r loc = evaluate_real_location c r Point_default"
  by (cases c) (simp add: evaluate_real_location_def n_vertices_def upt_rec)

lemma count_from_all_detectors_previous [simp]:
  "count_from_all_detectors (st\<lparr>previous_position_cell := w\<rparr>) c = count_from_all_detectors st c"
  by (simp add: count_from_all_detectors_def)

lemma calculate_cost_previous [simp]:
  "calculate_cost p (st\<lparr>previous_position_cell := w\<rparr>) c r l obs = calculate_cost p st c r l obs"
  by (cases "fem_cost_function p") (simp_all add: calculate_cost_def interpolated_count_def)

lemma cell_outcome_previous [simp]:
  "cell_outcome p (st\<lparr>previous_position_cell := w\<rparr>) obs tol c = cell_outcome p st obs tol c"
  by (simp add: cell_outcome_def Let_def split: sum.splits)

lemma examine_cell_outcome:
  "examine_cell p obs tol c (vars, st) =
     (case cell_outcome p st obs tol c of
        Inl e \<Rightarrow> Inl e
      | Inr None \<Rightarrow> Inr (vars, st)
      | Inr (Some (cost, loc)) \<Rightarrow>
          if cost < max_cost_function vars
          then Inr (vars\<lparr>max_cost_function := cost, position_found := True,
                         real_location := loc\<rparr>,
                    st\<lparr>previous_position_cell := c\<rparr>)
          else Inr (vars, st))"
  using evaluate_real_location_start [of c _ "real_location vars"]
  by (simp add: examine_cell_def cell_outcome_def Let_def split: sum.splits)


lemma valid_cost_previous [simp]:
  "valid_cost p (st\<lparr>previous_position_cell := w\<rparr>) obs tol c = valid_cost p st obs tol c"
  by (simp add: valid_cost_def)

lemma valid_location_previous [simp]:
  "valid_location p (st\<lparr>previous_position_cell := w\<rparr>) obs tol c = valid_location p st obs tol c"
  by (simp add: valid_location_def)

lemma examine_cell_cases:
  assumes "examine_cell p obs tol c (vars, st) = Inr (v1, s1)"
  shows "(v1 = vars \<and> s1 = st
            \<and> (\<forall>k. valid_cost p st obs tol c = Some k \<longrightarrow> max_cost_function vars \<le> k))
       \<or> (\<exists>k. valid_cost p st obs tol c = Some k \<and> k < max_cost_function vars
            \<and> v1 = vars\<lparr>max_cost_function := k, position_found := True,
                        real_location := valid_location p st obs tol c\<rparr>
            \<and> s1 = st\<lparr>previous_position_cell := c\<rparr>)"
  using assms
  by (auto simp: examine_cell_outcome valid_cost_def valid_location_def
           split: sum.splits option.splits if_splits)

lemma examine_cell_fails_iff:
  "(\<exists>e. examine_cell p obs tol c (vars, st) = Inl e) \<longleftrightarrow> (\<exists>e. cell_outcome p st obs tol c = Inl e)"
  by (auto simp: examine_cell_outcome split: sum.splits option.splits if_splits)

lemma examine_cells_select:
  assumes "examine_cells p obs tol cs (vars, st) = Inr (vars', st')"
  shows "(vars' = vars \<and> st' = st
            \<and> (\<forall>c\<in>set cs. \<forall>k. valid_cost p st obs tol c = Some k \<longrightarrow> max_cost_function vars \<le> k))
       \<or> (\<exists>pre w post. cs = pre @ w # post
            \<and> valid_cost p st obs tol w = Some (max_cost_function vars')
            \<and> max_cost_function vars' < max_cost_function vars
            \<and> vars' = vars\<lparr>max_cost_function := max_cost_function vars', position_found := True,
                           real_location := valid_location p st obs tol w\<rparr>
            \<and> st' = st\<lparr>previous_position_cell := w\<rparr>
            \<and> (\<forall>c\<in>set pre. \<forall>k. valid_cost p st obs tol c = Some k \<longrightarrow> max_cost_function vars' < k)
            \<and> (\<forall>c\<in>set post. \<forall>k. valid_cost p st obs tol c = Some k \<longrightarrow> max_cost_function vars' \<le> k))"
  using assms
proof (induction cs arbitrary: vars st)
  case Nil
  then show ?case by simp
next
  case (Cons x xs)
  from Cons.prems obtain v1 s1 where
    step: "examine_cell p obs tol x (vars, st) = Inr (v1, s1)"
    and rest: "examine_cells p obs tol xs (v1, s1) = Inr (vars', st')"
    by (auto split: sum.splits)
  note IH = Cons.IH [OF rest]
  from examine_cell_cases [OF step] show ?case
  proof (elim disjE conjE exE)
    assume same: "v1 = vars" "s1 = st"
      and xk: "\<forall>k. valid_cost p st obs tol x = Some k \<longrightarrow> max_cost_function vars \<le> k"
    from IH show ?thesis
    proof (elim disjE conjE exE)
      assume "vars' = v1" "st' = s1"
        "\<forall>c\<in>set xs. \<forall>k. valid_cost p s1 obs tol c = Some k \<longrightarrow> max_cost_function v1 \<le> k"
      with same xk show ?thesis by auto
    next
      fix pre w post
      assume a: "xs = pre @ w # post"
        "valid_cost p s1 obs tol w = Some (max_cost_function vars')"
        "max_cost_function vars' < max_cost_function v1"
        "vars' = v1\<lparr>max_cost_function := max_cost_function vars', position_found := True,
                           real_location := valid_location p s1 obs tol w\<rparr>"
        "st' = s1\<lparr>previous_position_cell := w\<rparr>"
        "\<forall>c\<in>set pre. \<forall>k. valid_cost p s1 obs tol c = Some k \<longrightarrow> max_cost_function vars' < k"
        "\<forall>c\<in>set post. \<forall>k. valid_cost p s1 obs tol c = Some k \<longrightarrow> max_cost_function vars' \<le> k"
      have "x # xs = (x # pre) @ w # post" using a(1) by simp
      moreover have "\<forall>c\<in>set (x # pre). \<forall>k. valid_cost p st obs tol c = Some k \<longrightarrow> max_cost_function vars' < k"
        using a(3,6) same xk by fastforce
      ultimately show ?thesis
        using a(2-5,7) same by blast
    qed
  next
    fix k
    assume xk: "valid_cost p st obs tol x = Some k" "k < max_cost_function vars"
      and v1: "v1 = vars\<lparr>max_cost_function := k, position_found := True,
                        real_location := valid_location p st obs tol x\<rparr>"
      and s1: "s1 = st\<lparr>previous_position_cell := x\<rparr>"
    from IH show ?thesis
    proof (elim disjE conjE exE)
      assume b: "vars' = v1" "st' = s1"
        "\<forall>c\<in>set xs. \<forall>k. valid_cost p s1 obs tol c = Some k \<longrightarrow> max_cost_function v1 \<le> k"
      have "x # xs = [] @ x # xs" by simp
      moreover have "valid_cost p st obs tol x = Some (max_cost_function vars')"
        using b(1) v1 xk by simp
      moreover have "max_cost_function vars' < max_cost_function vars"
        using b(1) v1 xk by simp
      moreover have "vars' = vars\<lparr>max_cost_function := max_cost_function vars', position_found := True,
                           real_location := valid_location p st obs tol x\<rparr>"
        using b(1) v1 by simp
      moreover have "st' = st\<lparr>previous_position_cell := x\<rparr>"
        using b(2) s1 by simp
      moreover have "\<forall>c\<in>set xs. \<forall>k. valid_cost p st obs tol c = Some k \<longrightarrow> max_cost_function vars' \<le> k"
        using b(1,3) s1 by simp
      moreover have "\<forall>c\<in>set []. \<forall>k. valid_cost p st obs tol c = Some k \<longrightarrow> max_cost_function vars' < k"
        by simp
      ultimately show ?thesis by blast
    next
      fix pre w post
      assume a: "xs = pre @ w # post"
        "valid_cost p s1 obs tol w = Some (max_cost_function vars')"
        "max_cost_function vars' < max_cost_function v1"
        "vars' = v1\<lparr>max_cost_function := max_cost_function vars', position_found := True,
                           real_location := valid_location p s1 obs tol w\<rparr>"
        "st' = s1\<lparr>previous_position_cell := w\<rparr>"
        "\<forall>c\<in>set pre. \<forall>k. valid_cost p s1 obs tol c = Some k \<longrightarrow> max_cost_function vars' < k"
        "\<forall>c\<in>set post. \<forall>k. valid_cost p s1 obs tol c = Some k \<longrightarrow> max_cost_function vars' \<le> k"
      have "x # xs = (x # pre) @ w # post" using a(1) by simp
      moreover have "valid_cost p st obs tol w = Some (max_cost_function vars')"
        using a(2) s1 by simp
      moreover have "max_cost_function vars' < max_cost_function vars"
        using a(3) v1 xk by simp
      moreover have "vars' = vars\<lparr>max_cost_function := max_cost_function vars', position_found := True,
                           real_location := valid_location p st obs tol w\<rparr>"
        using a(4) v1 s1 by simp
      moreover have "st' = st\<lparr>previous_position_cell := w\<rparr>"
        using a(5) s1 by simp
      moreover have "\<forall>c\<in>set (x # pre). \<forall>k. valid_cost p st obs tol c = Some k \<longrightarrow> max_cost_function vars' < k"
        using a(3,6) v1 s1 xk by auto
      moreover have "\<forall>c\<in>set post. \<forall>k. valid_cost p st obs tol c = Some k \<longrightarrow> max_cost_function vars' \<le> k"
        using a(7) s1 by simp
      ultimately show ?thesis by blast
    qed
  qed
qed

lemma examine_cells_runs_iff:
  "(\<exists>r. examine_cells p obs tol cs (vars, st) = Inr r)
     \<longleftrightarrow> (\<forall>c\<in>set cs. \<exists>r. cell_outcome p st obs tol c = Inr r)"
proof (induction cs arbitrary: vars st)
  case Nil
  show ?case by simp
next
  case (Cons x xs)
  show ?case
  proof (cases "examine_cell p obs tol x (vars, st)")
    case (Inl e)
    then have "\<exists>e. cell_outcome p st obs tol x = Inl e"
      using examine_cell_fails_iff [of p obs tol x vars st] by blast
    with Inl show ?thesis by auto
  next
    case (Inr acc)
    obtain v1 s1 where acc: "acc = (v1, s1)" by (cases acc)
    from Inr have ok: "\<exists>r. cell_outcome p st obs tol x = Inr r"
      using examine_cell_fails_iff [of p obs tol x vars st]
      by (metis sum.exhaust sum.distinct(1))
    from examine_cell_cases [OF Inr [unfolded acc]]
    have "\<And>c. cell_outcome p s1 obs tol c = cell_outcome p st obs tol c"
      by auto
    with Cons.IH [of v1 s1] Inr acc ok show ?thesis by simp
  qed
qed

subsection \<open>The result of a global search\<close>

lemma cell_outcome_dof_handler [simp]:
  "cell_outcome p (st\<lparr>dof_handler := dh\<rparr>) obs tol c = cell_outcome p st obs tol c"
proof -
  have "count_from_all_detectors (st\<lparr>dof_handler := dh\<rparr>) c = count_from_all_detectors st c"
    by (simp add: count_from_all_detectors_def)
  moreover have "calculate_cost p (st\<lparr>dof_handler := dh\<rparr>) c r l obs = calculate_cost p st c r l obs" for r l
    by (cases "fem_cost_function p") (simp_all add: calculate_cost_def interpolated_count_def)
  ultimately show ?thesis
    by (simp add: cell_outcome_def Let_def split: sum.splits)
qed

lemma valid_cost_dof_handler [simp]:
  "valid_cost p (st\<lparr>dof_handler := dh\<rparr>) obs tol c = valid_cost p st obs tol c"
  by (simp add: valid_cost_def)

lemma valid_location_dof_handler [simp]:
  "valid_location p (st\<lparr>dof_handler := dh\<rparr>) obs tol c = valid_location p st obs tol c"
  by (simp add: valid_location_def)

lemma global_search_result:
  assumes "find_position_global_search p obs tol st = Inr (found, s1)"
  shows "(\<not> found
            \<and> s1 = st\<lparr>found_positions := found_positions st @ [Point_default]\<rparr>
            \<and> (\<forall>c\<in>set (dof_handler st). \<forall>k. valid_cost p st obs tol c = Some k \<longrightarrow> DBL_MAX \<le> k))
       \<or> (found
            \<and> (\<exists>pre w post m. dof_handler st = pre @ w # post
                 \<and> valid_cost p st obs tol w = Some m \<and> m < DBL_MAX
                 \<and> s1 = st\<lparr>previous_position_cell := w,
                           found_positions := found_positions st @ [valid_location p st obs tol w]\<rparr>
                 \<and> (\<forall>c\<in>set pre. \<forall>k. valid_cost p st obs tol c = Some k \<longrightarrow> m < k)
                 \<and> (\<forall>c\<in>set post. \<forall>k. valid_cost p st obs tol c = Some k \<longrightarrow> m \<le> k)))"
proof -
  from assms obtain vars' st' where
    loop: "examine_cells p obs tol (dof_handler st) (initial_search_vars, st) = Inr (vars', st')"
    and found: "found = position_found vars'"
    and s1: "s1 = st'\<lparr>found_positions := found_positions st' @ [real_location vars']\<rparr>"
    by (auto simp: find_position_global_search_def split: sum.splits prod.splits)
  from examine_cells_select [OF loop] show ?thesis
  proof (elim disjE conjE exE)
    assume "vars' = initial_search_vars" "st' = st"
      "\<forall>c\<in>set (dof_handler st). \<forall>k. valid_cost p st obs tol c = Some k
           \<longrightarrow> max_cost_function initial_search_vars \<le> k"
    then show ?thesis
      using found s1 by (simp add: initial_search_vars_def)
  next
    fix pre w post
    assume a: "dof_handler st = pre @ w # post"
      "valid_cost p st obs tol w = Some (max_cost_function vars')"
      "max_cost_function vars' < max_cost_function initial_search_vars"
      "vars' = initial_search_vars\<lparr>max_cost_function := max_cost_function vars',
                   position_found := True, real_location := valid_location p st obs tol w\<rparr>"
      "st' = st\<lparr>previous_position_cell := w\<rparr>"
      "\<forall>c\<in>set pre. \<forall>k. valid_cost p st obs tol c = Some k \<longrightarrow> max_cost_function vars' < k"
      "\<forall>c\<in>set post. \<forall>k. valid_cost p st obs tol c = Some k \<longrightarrow> max_cost_function vars' \<le> k"
    have f: "found" using found a(4) by (metis search_vars.select_convs(2) search_vars.update_convs(1,2,3) search_vars.surjective)
    have loc: "real_location vars' = valid_location p st obs tol w"
      using a(4) by (metis search_vars.select_convs(3) search_vars.update_convs(1,2,3) search_vars.surjective)
    have "s1 = st\<lparr>previous_position_cell := w,
                 found_positions := found_positions st @ [valid_location p st obs tol w]\<rparr>"
      using s1 a(5) loc by simp
    moreover have "max_cost_function vars' < DBL_MAX"
      using a(3) by (simp add: initial_search_vars_def)
    ultimately show ?thesis
      using f a(1,2,6,7) by blast
  qed
qed

lemma find_first:
  "P w \<Longrightarrow> \<forall>c\<in>set pre. \<not> P c \<Longrightarrow> find P (pre @ w # post) = Some w"
  by (induction pre) auto

lemma global_search_runs_iff:
  "(\<exists>r. find_position_global_search p obs tol st = Inr r)
     \<longleftrightarrow> (\<forall>c\<in>set (dof_handler st). \<exists>r. cell_outcome p st obs tol c = Inr r)"
proof -
  have "(\<exists>r. find_position_global_search p obs tol st = Inr r)
          \<longleftrightarrow> (\<exists>r. examine_cells p obs tol (dof_handler st) (initial_search_vars, st) = Inr r)"
    by (auto simp: find_position_global_search_def split: sum.splits prod.splits)
  then show ?thesis
    using examine_cells_runs_iff [of p obs tol "dof_handler st" initial_search_vars st] by blast
qed

lemma global_search_permuted:
  assumes perm: "mset cells' = mset (dof_handler st)"
    and run: "find_position_global_search p obs tol st = Inr (found, s1)"
  shows "\<exists>s1'. find_position_global_search p obs tol (st\<lparr>dof_handler := cells'\<rparr>) = Inr (found, s1')
     \<and> (\<not> found \<longrightarrow> s1' = s1\<lparr>dof_handler := cells'\<rparr>)
     \<and> (found \<longrightarrow> (\<exists>m. m < DBL_MAX
           \<and> (\<forall>c\<in>set (dof_handler st). \<forall>k. valid_cost p st obs tol c = Some k \<longrightarrow> m \<le> k)
           \<and> find (\<lambda>c. valid_cost p st obs tol c = Some m) (dof_handler st)
               = Some (previous_position_cell s1)
           \<and> find (\<lambda>c. valid_cost p st obs tol c = Some m) cells'
               = Some (previous_position_cell s1')
           \<and> found_positions s1
               = found_positions st @ [valid_location p st obs tol (previous_position_cell s1)]
           \<and> found_positions s1'
               = found_positions st @ [valid_location p st obs tol (previous_position_cell s1')])
           \<and> ((\<forall>c\<in>set (dof_handler st).
                   valid_cost p st obs tol c = valid_cost p st obs tol (previous_position_cell s1)
                   \<longrightarrow> c = previous_position_cell s1)
                \<longrightarrow> s1' = s1\<lparr>dof_handler := cells'\<rparr>))"
proof -
  define st2 where "st2 = st\<lparr>dof_handler := cells'\<rparr>"
  define K where "K = valid_cost p st obs tol"
  have set_eq: "set cells' = set (dof_handler st)"
    using perm by (rule mset_eq_setD)
  have dh2: "dof_handler st2 = cells'" by (simp add: st2_def)
  have K2: "valid_cost p st2 obs tol = K" by (simp add: st2_def K_def fun_eq_iff)
  have L2: "valid_location p st2 obs tol = valid_location p st obs tol"
    by (simp add: st2_def fun_eq_iff)
  have "\<forall>c\<in>set (dof_handler st). \<exists>r. cell_outcome p st obs tol c = Inr r"
    using run global_search_runs_iff [of p obs tol st] by blast
  then have "\<forall>c\<in>set (dof_handler st2). \<exists>r. cell_outcome p st2 obs tol c = Inr r"
    by (simp add: st2_def set_eq)
  then obtain found2 s2 where run2: "find_position_global_search p obs tol st2 = Inr (found2, s2)"
    using global_search_runs_iff [of p obs tol st2] by (metis surj_pair)
  note r1 = global_search_result [OF run, folded K_def]
  note r2 = global_search_result [OF run2, unfolded K2 L2 dh2]
  show ?thesis
  proof (cases found)
    case False
    with r1 have s1: "s1 = st\<lparr>found_positions := found_positions st @ [Point_default]\<rparr>"
      and big: "\<forall>c\<in>set (dof_handler st). \<forall>k. K c = Some k \<longrightarrow> DBL_MAX \<le> k"
      by auto
    have nf2: "\<not> found2"
    proof
      assume found2
      with r2 obtain pre' w post' m where
        "cells' = pre' @ w # post'" "K w = Some m" "m < DBL_MAX" by blast
      moreover from this have "w \<in> set (dof_handler st)" using set_eq by auto
      ultimately show False using big by fastforce
    qed
    with r2 have "s2 = st2\<lparr>found_positions := found_positions st2 @ [Point_default]\<rparr>" by auto
    then have "s2 = s1\<lparr>dof_handler := cells'\<rparr>" by (simp add: s1 st2_def)
    with run2 nf2 False show ?thesis by (auto simp: st2_def)
  next
    case True
    with r1 obtain pre w post m where
      a: "dof_handler st = pre @ w # post" "K w = Some m" "m < DBL_MAX"
         "s1 = st\<lparr>previous_position_cell := w,
                   found_positions := found_positions st @ [valid_location p st obs tol w]\<rparr>"
         "\<forall>c\<in>set pre. \<forall>k. K c = Some k \<longrightarrow> m < k"
         "\<forall>c\<in>set post. \<forall>k. K c = Some k \<longrightarrow> m \<le> k"
      by auto
    have f2: found2
    proof (rule ccontr)
      assume "\<not> found2"
      with r2 have "\<forall>c\<in>set cells'. \<forall>k. K c = Some k \<longrightarrow> DBL_MAX \<le> k" by auto
      moreover have "w \<in> set cells'" using a(1) set_eq by auto
      ultimately show False using a(2,3) by fastforce
    qed
    with r2 obtain pre' w' post' m' where
      b: "cells' = pre' @ w' # post'" "K w' = Some m'" "m' < DBL_MAX"
         "s2 = st2\<lparr>previous_position_cell := w',
                   found_positions := found_positions st2 @ [valid_location p st obs tol w']\<rparr>"
         "\<forall>c\<in>set pre'. \<forall>k. K c = Some k \<longrightarrow> m' < k"
         "\<forall>c\<in>set post'. \<forall>k. K c = Some k \<longrightarrow> m' \<le> k"
      by auto
    have min1: "\<forall>c\<in>set (dof_handler st). \<forall>k. K c = Some k \<longrightarrow> m \<le> k"
      using a(1,2,5,6) by fastforce
    have min2: "\<forall>c\<in>set cells'. \<forall>k. K c = Some k \<longrightarrow> m' \<le> k"
      using b(1,2,5,6) by fastforce
    have "w \<in> set cells'" "w' \<in> set (dof_handler st)"
      using a(1) b(1) set_eq by auto
    with min1 min2 a(2) b(2) have mm: "m' = m" by fastforce
    have find1: "find (\<lambda>c. K c = Some m) (dof_handler st) = Some w"
      unfolding a(1) using a(2,5) by (intro find_first) auto
    have find2: "find (\<lambda>c. K c = Some m) cells' = Some w'"
      unfolding b(1) using b(2,5) mm by (intro find_first) auto
    have p1: "previous_position_cell s1 = w" "previous_position_cell s2 = w'"
      by (simp_all add: a(4) b(4))
    have fp1: "found_positions s1 = found_positions st @ [valid_location p st obs tol w]"
      by (simp add: a(4))
    have fp2: "found_positions s2 = found_positions st @ [valid_location p st obs tol w']"
      by (simp add: b(4) st2_def)
    have uniq: "s2 = s1\<lparr>dof_handler := cells'\<rparr>"
      if "\<forall>c\<in>set (dof_handler st). K c = K (previous_position_cell s1)
             \<longrightarrow> c = previous_position_cell s1"
    proof -
      from that \<open>w' \<in> set (dof_handler st)\<close> a(2) b(2) mm p1 have "w' = w" by simp
      then show ?thesis by (simp add: a(4) b(4) st2_def)
    qed
    have "\<exists>m. m < DBL_MAX
           \<and> (\<forall>c\<in>set (dof_handler st). \<forall>k. K c = Some k \<longrightarrow> m \<le> k)
           \<and> find (\<lambda>c. K c = Some m) (dof_handler st) = Some (previous_position_cell s1)
           \<and> find (\<lambda>c. K c = Some m) cells' = Some (previous_position_cell s2)
           \<and> found_positions s1
               = found_positions st @ [valid_location p st obs tol (previous_position_cell s1)]
           \<and> found_positions s2
               = found_positions st @ [valid_location p st obs tol (previous_position_cell s2)]"
      using a(3) min1 find1 find2 fp1 fp2 p1 by (intro exI [of _ m]) simp
    with run2 f2 True uniq show ?thesis
      unfolding st2_def [symmetric] K_def [symmetric]
      by (intro exI [of _ s2]) simp
  qed
qed

subsection \<open>Searches and the trajectory\<close>

lemma cell_outcome_found_positions [simp]:
  "cell_outcome p (st\<lparr>found_positions := f\<rparr>) obs tol c = cell_outcome p st obs tol c"
proof -
  have "count_from_all_detectors (st\<lparr>found_positions := f\<rparr>) c = count_from_all_detectors st c"
    by (simp add: count_from_all_detectors_def)
  moreover have "calculate_cost p (st\<lparr>found_positions := f\<rparr>) c r l obs = calculate_cost p st c r l obs" for r l
    by (cases "fem_cost_function p") (simp_all add: calculate_cost_def interpolated_count_def)
  ultimately show ?thesis
    by (simp add: cell_outcome_def Let_def split: sum.splits)
qed

lemma cell_solvable_iff:
  "cell_solvable p st obs c \<longleftrightarrow> (\<exists>r. cell_outcome p st obs tol c = Inr r)"
  by (auto simp: cell_solvable_def cell_outcome_def Let_def split: sum.splits)

lemma cell_solvable_frame [simp]:
  "cell_solvable p (st\<lparr>previous_position_cell := w\<rparr>) obs c = cell_solvable p st obs c"
  "cell_solvable p (st\<lparr>found_positions := f\<rparr>) obs c = cell_solvable p st obs c"
  by (simp_all add: cell_solvable_iff [where tol = 0])

lemma set_insert_subset: "set (set_insert c s) \<subseteq> insert c (set s)"
  by (induction s) auto

lemma fold_set_insert_subset: "set (fold set_insert cs s) \<subseteq> set cs \<union> set s"
proof (induction cs arbitrary: s)
  case Nil
  show ?case by simp
next
  case (Cons c cs)
  have "set (fold set_insert cs (set_insert c s)) \<subseteq> set cs \<union> set (set_insert c s)"
    by (rule Cons.IH)
  also have "\<dots> \<subseteq> set cs \<union> insert c (set s)"
    using set_insert_subset [of c s] by blast
  finally show ?case by auto
qed

lemma find_cells_adjacent_to_vertex_subset: "set (find_cells_adjacent_to_vertex dh v) \<subseteq> set dh"
  by (simp add: find_cells_adjacent_to_vertex_def)

lemma insert_adjacent_cells_subset: "set (insert_adjacent_cells dh c s) \<subseteq> set dh \<union> set s"
proof -
  have "set (fold (\<lambda>v s. fold set_insert (find_cells_adjacent_to_vertex dh (vertex_index v)) s) vs s)
          \<subseteq> set dh \<union> set s" for vs
  proof (induction vs arbitrary: s)
    case Nil
    show ?case by simp
  next
    case (Cons v vs)
    let ?s1 = "fold set_insert (find_cells_adjacent_to_vertex dh (vertex_index v)) s"
    have "set ?s1 \<subseteq> set dh \<union> set s"
      using fold_set_insert_subset [of "find_cells_adjacent_to_vertex dh (vertex_index v)" s]
        find_cells_adjacent_to_vertex_subset [of dh "vertex_index v"] by blast
    with Cons.IH [of ?s1] show ?case by auto
  qed
  then show ?thesis by (simp add: insert_adjacent_cells_def)
qed

lemma fold_expand_main_cell_subset:
  assumes "set (fst sets) \<subseteq> S" "set dh \<subseteq> S"
  shows "set (fst (fold (expand_main_cell dh pa) cs sets)) \<subseteq> S"
  using assms(1)
proof (induction cs arbitrary: sets)
  case Nil
  then show ?case by simp
next
  case (Cons c cs)
  have "set (fst (expand_main_cell dh pa c sets)) \<subseteq> S"
    using insert_adjacent_cells_subset [of dh c "fst sets"] Cons.prems assms(2)
    by (auto simp: expand_main_cell_def Let_def)
  from Cons.IH [OF this] show ?case by simp
qed

lemma fold_proximity_level_step_subset:
  assumes "set (fst sets) \<subseteq> S" "set dh \<subseteq> S"
  shows "set (fst (fold (\<lambda>proximity_level. proximity_level_step dh) levels sets)) \<subseteq> S"
  using assms(1)
proof (induction levels arbitrary: sets)
  case Nil
  then show ?case by simp
next
  case (Cons l levels)
  have "set (fst (proximity_level_step dh sets)) \<subseteq> S"
    unfolding proximity_level_step_def Let_def
    by (rule fold_expand_main_cell_subset [OF Cons.prems assms(2)])
  from Cons.IH [OF this] show ?case by simp
qed

lemma candidate_cells_subset: "set (candidate_cells dh c L) \<subseteq> insert c (set dh)"
proof -
  have base: "set (insert_adjacent_cells dh c (set_insert c [])) \<subseteq> insert c (set dh)"
    using insert_adjacent_cells_subset [of dh c "set_insert c []"] by auto
  have lvl: "set (fst (fold (\<lambda>proximity_level. proximity_level_step dh) [2..<L + 1]
                 (insert_adjacent_cells dh c (set_insert c []), set_insert c [])))
          \<subseteq> insert c (set dh)"
    by (rule fold_proximity_level_step_subset) (use base in auto)
  show ?thesis
    by (cases "1 < L") (simp_all only: candidate_cells_def Let_def if_True if_False base lvl)
qed

lemma local_search_result:
  assumes "find_position_local_search p obs tol c st = Inr (found, st')"
  shows "(\<not> found \<and> st' = st)
       \<or> (found \<and> (\<exists>w\<in>set (candidate_cells (dof_handler st) c (search_proximity_level p)). \<exists>x.
             st' = st\<lparr>previous_position_cell := w,
                       found_positions := found_positions st @ [x]\<rparr>))"
proof -
  let ?cs = "candidate_cells (dof_handler st) c (search_proximity_level p)"
  from assms obtain vars' s1 where
    loop: "examine_cells p obs tol ?cs (initial_search_vars, st) = Inr (vars', s1)"
    and res: "(found, st') = (if position_found vars'
                 then (True, s1\<lparr>found_positions := found_positions s1 @ [real_location vars']\<rparr>)
                 else (False, s1))"
    by (auto simp: find_position_local_search_def split: sum.splits prod.splits if_splits)
  from examine_cells_select [OF loop] show ?thesis
  proof (elim disjE conjE exE)
    assume "vars' = initial_search_vars" "s1 = st"
    then show ?thesis using res by (simp add: initial_search_vars_def)
  next
    fix pre w post
    assume a: "?cs = pre @ w # post"
      "vars' = initial_search_vars\<lparr>max_cost_function := max_cost_function vars',
                   position_found := True, real_location := valid_location p st obs tol w\<rparr>"
      "s1 = st\<lparr>previous_position_cell := w\<rparr>"
    have f: "position_found vars'"
      using a(2) by (metis search_vars.select_convs(2) search_vars.update_convs(1,2,3) search_vars.surjective)
    have "w \<in> set ?cs" using a(1) by simp
    moreover have "st' = st\<lparr>previous_position_cell := w,
                       found_positions := found_positions st @ [real_location vars']\<rparr>"
      using res f a(3) by simp
    moreover have found using res f by simp
    ultimately show ?thesis by blast
  qed
qed

lemma local_search_runs_iff:
  "(\<exists>r. find_position_local_search p obs tol c st = Inr r)
     \<longleftrightarrow> (\<forall>x\<in>set (candidate_cells (dof_handler st) c (search_proximity_level p)).
            \<exists>r. cell_outcome p st obs tol x = Inr r)"
proof -
  have "(\<exists>r. find_position_local_search p obs tol c st = Inr r)
          \<longleftrightarrow> (\<exists>r. examine_cells p obs tol
                      (candidate_cells (dof_handler st) c (search_proximity_level p))
                      (initial_search_vars, st) = Inr r)"
    by (auto simp: find_position_local_search_def split: sum.splits prod.splits)
  then show ?thesis
    using examine_cells_runs_iff [of p obs tol
            "candidate_cells (dof_handler st) c (search_proximity_level p)" initial_search_vars st]
    by blast
qed


lemma global_search_appends:
  assumes "find_position_global_search p obs tol st = Inr (found, st')"
  shows "\<exists>w x. st' = st\<lparr>previous_position_cell := w,
                        found_positions := found_positions st @ [x]\<rparr>
               \<and> (found \<longrightarrow> w \<in> set (dof_handler st))"
  using global_search_result [OF assms]
proof (elim disjE conjE exE)
  assume "\<not> found" "st' = st\<lparr>found_positions := found_positions st @ [Point_default]\<rparr>"
  then have "st' = st\<lparr>previous_position_cell := previous_position_cell st,
                      found_positions := found_positions st @ [Point_default]\<rparr>
             \<and> (found \<longrightarrow> previous_position_cell st \<in> set (dof_handler st))"
    by simp
  then show ?thesis by blast
next
  fix pre w post m
  assume "dof_handler st = pre @ w # post"
    "st' = st\<lparr>previous_position_cell := w,
              found_positions := found_positions st @ [valid_location p st obs tol w]\<rparr>"
  then have "st' = st\<lparr>previous_position_cell := w,
              found_positions := found_positions st @ [valid_location p st obs tol w]\<rparr>
             \<and> (found \<longrightarrow> w \<in> set (dof_handler st))"
    by simp
  then show ?thesis by blast
qed

lemma local_first_step_result:
  assumes "local_first_step p tol obs (adj, st) = Inr (adj', st')"
  shows "\<exists>w x. st' = st\<lparr>previous_position_cell := w,
                        found_positions := found_positions st @ [x]\<rparr>
               \<and> ((adj \<longrightarrow> previous_position_cell st \<in> set (dof_handler st))
                    \<longrightarrow> adj' \<longrightarrow> w \<in> set (dof_handler st))"
proof (cases adj)
  case False
  with assms have "find_position_global_search p obs tol st = Inr (adj', st')"
    by (simp add: local_first_step_def)
  from global_search_appends [OF this] show ?thesis by blast
next
  case True
  with assms obtain f1 s1 where
    loc: "find_position_local_search p obs tol (previous_position_cell st) st = Inr (f1, s1)"
    and rest: "(if \<not> f1 then find_position_global_search p obs tol s1 else Inr (f1, s1))
                 = Inr (adj', st')"
    by (auto simp: local_first_step_def split: sum.splits prod.splits)
  from local_search_result [OF loc] show ?thesis
  proof (elim disjE conjE bexE exE)
    assume "\<not> f1" "s1 = st"
    with rest have "find_position_global_search p obs tol st = Inr (adj', st')" by simp
    from global_search_appends [OF this] show ?thesis by blast
  next
    fix w x
    assume f1 and w: "w \<in> set (candidate_cells (dof_handler st) (previous_position_cell st)
                               (search_proximity_level p))"
      and s1: "s1 = st\<lparr>previous_position_cell := w,
                       found_positions := found_positions st @ [x]\<rparr>"
    from \<open>f1\<close> rest have "st' = s1" by simp
    moreover have "w \<in> set (dof_handler st)"
      if "previous_position_cell st \<in> set (dof_handler st)"
      using w candidate_cells_subset [of "dof_handler st" "previous_position_cell st"
              "search_proximity_level p"] that by auto
    ultimately show ?thesis using s1 True by blast
  qed
qed

lemma local_first_step_runs:
  assumes "\<forall>c\<in>set (dof_handler st). cell_solvable p st obs c"
    and "adj \<longrightarrow> previous_position_cell st \<in> set (dof_handler st)"
  shows "\<exists>r. local_first_step p tol obs (adj, st) = Inr r"
proof -
  have out: "\<forall>c\<in>set (dof_handler st). \<exists>r. cell_outcome p st obs tol c = Inr r"
    using assms(1) by (simp add: cell_solvable_iff [where tol = tol])
  then have glob: "\<exists>r. find_position_global_search p obs tol st = Inr r"
    using global_search_runs_iff [of p obs tol st] by blast
  show ?thesis
  proof (cases adj)
    case False
    with glob show ?thesis by (simp add: local_first_step_def)
  next
    case True
    with assms(2) have "set (candidate_cells (dof_handler st) (previous_position_cell st)
                               (search_proximity_level p)) \<subseteq> set (dof_handler st)"
      using candidate_cells_subset [of "dof_handler st" "previous_position_cell st"
              "search_proximity_level p"] by auto
    with out have "\<exists>r. find_position_local_search p obs tol (previous_position_cell st) st = Inr r"
      using local_search_runs_iff [of p obs tol "previous_position_cell st" st] by blast
    then obtain f1 s1 where
      loc: "find_position_local_search p obs tol (previous_position_cell st) st = Inr (f1, s1)"
      by (metis surj_pair)
    show ?thesis
    proof (cases f1)
      case True
      with loc \<open>adj\<close> show ?thesis by (auto simp: local_first_step_def)
    next
      case False
      with local_search_result [OF loc] have "s1 = st" by auto
      with loc False glob \<open>adj\<close> show ?thesis by (auto simp: local_first_step_def)
    qed
  qed
qed

lemma trajectory_local_appends:
  assumes "trajectory_local p tol all (adj, st) = Inr st'"
  shows "\<exists>new. length new = length all \<and> found_positions st' = found_positions st @ new
           \<and> (\<forall>k\<le>length all. \<exists>st_k. trajectory_local p tol (take k all) (adj, st) = Inr st_k
                  \<and> found_positions st_k = found_positions st @ take k new)"
  using assms
proof (induction all arbitrary: adj st)
  case Nil
  then show ?case by simp
next
  case (Cons obs rest)
  from Cons.prems obtain adj1 st1 where
    step: "local_first_step p tol obs (adj, st) = Inr (adj1, st1)"
    and run: "trajectory_local p tol rest (adj1, st1) = Inr st'"
    by (auto split: sum.splits)
  from local_first_step_result [OF step] obtain x where
    fp1: "found_positions st1 = found_positions st @ [x]" by auto
  from Cons.IH [OF run] obtain new where
    new: "length new = length rest" "found_positions st' = found_positions st1 @ new"
      "\<forall>k\<le>length rest. \<exists>st_k. trajectory_local p tol (take k rest) (adj1, st1) = Inr st_k
                  \<and> found_positions st_k = found_positions st1 @ take k new"
    by blast
  have "\<exists>st_k. trajectory_local p tol (take k (obs # rest)) (adj, st) = Inr st_k
                  \<and> found_positions st_k = found_positions st @ take k (x # new)"
    if "k \<le> length (obs # rest)" for k
  proof (cases k)
    case 0
    then show ?thesis by simp
  next
    case (Suc j)
    with that have "j \<le> length rest" by simp
    with new(3) obtain st_j where
      "trajectory_local p tol (take j rest) (adj1, st1) = Inr st_j"
      "found_positions st_j = found_positions st1 @ take j new"
      by blast
    with Suc step fp1 show ?thesis by simp
  qed
  moreover have "length (x # new) = length (obs # rest)" using new(1) by simp
  moreover have "found_positions st' = found_positions st @ (x # new)"
    using new(2) fp1 by simp
  ultimately show ?case by blast
qed

lemma trajectory_local_runs:
  assumes "\<forall>obs\<in>set all. \<forall>c\<in>set (dof_handler st). cell_solvable p st obs c"
    and "adj \<longrightarrow> previous_position_cell st \<in> set (dof_handler st)"
  shows "\<exists>st'. trajectory_local p tol all (adj, st) = Inr st'"
  using assms
proof (induction all arbitrary: adj st)
  case Nil
  show ?case by simp
next
  case (Cons obs rest)
  from Cons.prems have "\<forall>c\<in>set (dof_handler st). cell_solvable p st obs c" by simp
  from local_first_step_runs [OF this Cons.prems(2)] obtain adj1 st1 where
    step: "local_first_step p tol obs (adj, st) = Inr (adj1, st1)"
    by (metis surj_pair)
  from local_first_step_result [OF step] Cons.prems(2) obtain w x where
    st1: "st1 = st\<lparr>previous_position_cell := w, found_positions := found_positions st @ [x]\<rparr>"
    and w: "adj1 \<longrightarrow> w \<in> set (dof_handler st)"
    by blast
  have "\<forall>obs\<in>set rest. \<forall>c\<in>set (dof_handler st1). cell_solvable p st1 obs c"
    using Cons.prems(1) by (simp add: st1)
  moreover have "adj1 \<longrightarrow> previous_position_cell st1 \<in> set (dof_handler st1)"
    using w by (simp add: st1)
  ultimately obtain st' where "trajectory_local p tol rest (adj1, st1) = Inr st'"
    using Cons.IH by blast
  with step show ?case by simp
qed

lemma cell_outcome_singular:
  assumes "count_from_all_detectors st c = Inr counts"
    and "assemble_matrix_and_rhs counts obs (fem_cost_function p) = Inl e"
  shows "cell_outcome p st obs tol c = Inl e"
  using assms by (simp add: cell_outcome_def)

lemma trajectory_first_search_fails:
  assumes "find_position_global_search p obs tol st = Inl e"
  shows "trajectory p tol (obs # rest) st = Inl e"
  using assms
  by (cases "search_type p") (simp_all add: trajectory_def local_first_step_def)

subsection \<open>Checkpoint files\<close>

lemma digit_value_digit_char: "d < 10 \<Longrightarrow> digit_value (digit_char d) = d"
proof -
  assume "d < 10"
  then have "d = 0 \<or> d = 1 \<or> d = 2 \<or> d = 3 \<or> d = 4 \<or> d = 5 \<or> d = 6 \<or> d = 7 \<or> d = 8 \<or> d = 9"
    by arith
  then show ?thesis
    by (elim disjE) (simp_all add: digit_value_def digit_char_def)
qed

lemma read_decimal_snoc: "read_decimal (s @ [c]) = 10 * read_decimal s + digit_value c"
  by (simp add: read_decimal_def)

lemma read_decimal_decimal: "read_decimal (decimal n) = n"
proof (induction n rule: decimal.induct)
  case (1 n)
  show ?case
  proof (cases "n < 10")
    case True
    then show ?thesis
      by (subst decimal.simps) (simp add: read_decimal_def digit_value_digit_char)
  next
    case False
    with "1" have "read_decimal (decimal (n div 10)) = n div 10" by simp
    with False show ?thesis
      by (subst decimal.simps) (simp add: read_decimal_snoc digit_value_digit_char)
  qed
qed

lemma read_decimal_zeros: "read_decimal (replicate k (CHR ''0'') @ s) = read_decimal s"
proof -
  have "foldl (\<lambda>acc c. 10 * acc + digit_value c) 0 (replicate k (CHR ''0'')) = 0"
    by (induction k) (simp_all add: digit_value_def)
  then show ?thesis by (simp add: read_decimal_def)
qed

lemma read_decimal_to_string: "read_decimal (to_string n digits) = n"
  by (simp add: to_string_def Let_def read_decimal_zeros read_decimal_decimal)

lemma counts_filename_inj: "counts_filename i = counts_filename j \<longleftrightarrow> i = j"
proof
  assume "counts_filename i = counts_filename j"
  then have "to_string i 2 = to_string j 2"
    by (simp add: counts_filename_def)
  then have "read_decimal (to_string i 2) = read_decimal (to_string j 2)" by simp
  then show "i = j" by (simp only: read_decimal_to_string)
qed simp

lemma counts_filename_not_dof: "counts_filename i \<noteq> ''temp_dof_handler.dof''"
  by (simp add: counts_filename_def)

lemma fold_write_lookup:
  "fold (\<lambda>i fs'. fs'(counts_filename i \<mapsto> g i)) [0..<n] fs name
     = (if \<exists>i<n. name = counts_filename i
        then Some (g (THE i. name = counts_filename i))
        else fs name)"
proof (induction n)
  case 0
  show ?case by simp
next
  case (Suc n)
  have the: "(THE i. counts_filename j = counts_filename i) = j" for j
    by (simp add: counts_filename_inj)
  show ?case
  proof (cases "name = counts_filename n")
    case True
    then show ?thesis using the by auto
  next
    case False
    then have "(\<exists>i<Suc n. name = counts_filename i) \<longleftrightarrow> (\<exists>i<n. name = counts_filename i)"
      using less_Suc_eq by auto
    with False Suc show ?thesis by simp
  qed
qed

lemma checkpoint_files:
  assumes "n_detector st \<le> length (nodal_counts st)"
  shows "\<exists>fs'. checkpoint st fs = Inr fs'
           \<and> fs' ''temp_dof_handler.dof'' = Some (Dof_archive (dof_handler st))
           \<and> (\<forall>i<n_detector st. fs' (counts_filename i) = Some (Counts_archive (nodal_counts st ! i)))"
proof -
  let ?fs0 = "fs(''temp_dof_handler.dof'' \<mapsto> Dof_archive (dof_handler st))"
  let ?fs' = "fold (\<lambda>i fs'. fs'(counts_filename i \<mapsto> Counts_archive (nodal_counts st ! i)))
                [0..<n_detector st] ?fs0"
  have c: "checkpoint st fs = Inr ?fs'"
    using assms by (simp add: checkpoint_def)
  have "\<not> (\<exists>i<n_detector st. ''temp_dof_handler.dof'' = counts_filename i)"
    using counts_filename_not_dof by metis
  then have d: "?fs' ''temp_dof_handler.dof'' = Some (Dof_archive (dof_handler st))"
    by (simp add: fold_write_lookup)
  have "?fs' (counts_filename i) = Some (Counts_archive (nodal_counts st ! i))"
    if "i < n_detector st" for i
    using that by (auto simp: fold_write_lookup counts_filename_inj)
  with c d show ?thesis by blast
qed

lemma load_nodal_counts_map:
  assumes "\<forall>x\<in>set xs. fs (f x) = Some (Counts_archive (g x))"
  shows "load_nodal_counts fs (map f xs) = Inr (map g xs)"
  using assms by (induction xs) simp_all

lemma load_nodal_counts_length:
  "load_nodal_counts fs names = Inr counts \<Longrightarrow> length counts = length names"
  by (induction names arbitrary: counts) (auto split: option.splits archive.splits sum.splits)

lemma load_nodal_counts_error:
  "load_nodal_counts fs names = Inl e \<Longrightarrow> e = ExcIO"
  by (induction names) (auto split: option.splits archive.splits sum.splits)

lemma load_from_checkpoint_error:
  "load_from_checkpoint p fs st = Inl e \<Longrightarrow> e = ExcIO"
  by (auto simp: load_from_checkpoint_def Let_def dest: load_nodal_counts_error
           split: option.splits archive.splits sum.splits)

lemma load_nodal_counts_runs:
  "\<forall>name\<in>set names. \<exists>counts. fs name = Some (Counts_archive counts)
     \<Longrightarrow> \<exists>counts. load_nodal_counts fs names = Inr counts"
  by (induction names) auto

subsection \<open>The small mesh, evaluated\<close>

lemma cell_outcome_eval:
  assumes "count_from_all_detectors st c = Inr counts"
    and "assemble_matrix_and_rhs counts obs (fem_cost_function p) = Inr r"
  shows "cell_outcome p st obs tol c =
           (if calculate_reference_location_error r (1 - r ! 0 - r ! 1 - r ! 2) < tol
            then Inr (Some (calculate_cost p st c r (1 - r ! 0 - r ! 1 - r ! 2) obs,
                            evaluate_real_location c r Point_default))
            else Inr None)"
  using assms by (simp add: cell_outcome_def Let_def)

lemma example_absolute [simp]: "fem_cost_function example_parameters = absolute"
  by (simp add: example_parameters_def)

lemma example_counts_A:
  "count_from_all_detectors example_state cell_A
     = Inr [[10, 20, 20, 20], [5, 5, 15, 15], [1, 2, 3, 5], [2, 4, 4, 7]]"
  by code_simp

lemma example_counts_B:
  "count_from_all_detectors example_state cell_B
     = Inr [[20, 20, 20, 30], [5, 15, 15, 25], [2, 3, 5, 8], [4, 4, 7, 9]]"
  by code_simp

lemma example_outcome_A:
  "cell_outcome example_parameters example_state observation_AB default_tol cell_A
     = Inr (Some (2 / 655, Point (1969 / 6550) (1811 / 6550) (4887 / 13100)))"
proof -
  have r: "assemble_matrix_and_rhs [[10, 20, 20, 20], [5, 5, 15, 15], [1, 2, 3, 5], [2, 4, 4, 7]]
             observation_AB (fem_cost_function example_parameters)
           = Inr [1969 / 6550, 1811 / 6550, 4887 / 13100]"
    unfolding example_absolute by code_simp
  have e: "calculate_reference_location_error [1969 / 6550, 1811 / 6550, 4887 / 13100]
             (1 - [1969 / 6550, 1811 / 6550, 4887 / 13100] ! 0
                - [1969 / 6550, 1811 / 6550, 4887 / 13100] ! 1
                - [1969 / 6550, 1811 / 6550, 4887 / 13100] ! 2) < default_tol"
    by code_simp
  have k: "calculate_cost example_parameters example_state cell_A
             [1969 / 6550, 1811 / 6550, 4887 / 13100]
             (1 - [1969 / 6550, 1811 / 6550, 4887 / 13100] ! 0
                - [1969 / 6550, 1811 / 6550, 4887 / 13100] ! 1
                - [1969 / 6550, 1811 / 6550, 4887 / 13100] ! 2)
             observation_AB = 2 / 655"
    by code_simp
  have l: "evaluate_real_location cell_A [1969 / 6550, 1811 / 6550, 4887 / 13100] Point_default
             = Point (1969 / 6550) (1811 / 6550) (4887 / 13100)"
    by code_simp
  show ?thesis
    unfolding cell_outcome_eval [OF example_counts_A r] using e k l by simp
qed

lemma example_outcome_B:
  "cell_outcome example_parameters example_state observation_AB default_tol cell_B
     = Inr (Some (1 / 5252, Point (1641 / 6565) (1413 / 5252) (10001 / 26260)))"
proof -
  have r: "assemble_matrix_and_rhs [[20, 20, 20, 30], [5, 15, 15, 25], [2, 3, 5, 8], [4, 4, 7, 9]]
             observation_AB (fem_cost_function example_parameters)
           = Inr [419 / 1313, 2829 / 6565, - (263 / 5252)]"
    unfolding example_absolute by code_simp
  have e: "calculate_reference_location_error [419 / 1313, 2829 / 6565, - (263 / 5252)]
             (1 - [419 / 1313, 2829 / 6565, - (263 / 5252)] ! 0
                - [419 / 1313, 2829 / 6565, - (263 / 5252)] ! 1
                - [419 / 1313, 2829 / 6565, - (263 / 5252)] ! 2) < default_tol"
    by code_simp
  have k: "calculate_cost example_parameters example_state cell_B
             [419 / 1313, 2829 / 6565, - (263 / 5252)]
             (1 - [419 / 1313, 2829 / 6565, - (263 / 5252)] ! 0
                - [419 / 1313, 2829 / 6565, - (263 / 5252)] ! 1
                - [419 / 1313, 2829 / 6565, - (263 / 5252)] ! 2)
             observation_AB = 1 / 5252"
    by code_simp
  have l: "evaluate_real_location cell_B [419 / 1313, 2829 / 6565, - (263 / 5252)] Point_default
             = Point (1641 / 6565) (1413 / 5252) (10001 / 26260)"
    by code_simp
  show ?thesis
    unfolding cell_outcome_eval [OF example_counts_B r] using e k l by simp
qed

lemma DBL_MAX_large: "1 < DBL_MAX"
  by (simp add: DBL_MAX_def)

lemma example_counts_flat:
  "count_from_all_detectors flat_mesh cell_flat
     = Inr [[1, 1, 1, 1], [1, 1, 1, 1], [2, 2, 2, 2], [3, 3, 3, 3]]"
  by code_simp

lemma example_singular_flat:
  "assemble_matrix_and_rhs [[1, 1, 1, 1], [1, 1, 1, 1], [2, 2, 2, 2], [3, 3, 3, 3]]
     observation_A (fem_cost_function example_parameters) = Inl ExcSingular"
  unfolding example_absolute by code_simp

lemma example_outcome_A_flat:
  "cell_outcome example_parameters flat_mesh observation_A default_tol cell_A
     = Inr (Some (0, Point (1 / 4) (1 / 4) (1 / 4)))"
proof -
  have c: "count_from_all_detectors flat_mesh cell_A
             = Inr [[10, 20, 20, 20], [5, 5, 15, 15], [1, 2, 3, 5], [2, 4, 4, 7]]"
    by code_simp
  have r: "assemble_matrix_and_rhs [[10, 20, 20, 20], [5, 5, 15, 15], [1, 2, 3, 5], [2, 4, 4, 7]]
             observation_A (fem_cost_function example_parameters) = Inr [1 / 4, 1 / 4, 1 / 4]"
    unfolding example_absolute by code_simp
  have e: "calculate_reference_location_error [1 / 4, 1 / 4, 1 / 4]
             (1 - [1 / 4, 1 / 4, 1 / 4] ! 0 - [1 / 4, 1 / 4, 1 / 4] ! 1 - [1 / 4, 1 / 4, 1 / 4] ! 2)
           < default_tol"
    by code_simp
  have k: "calculate_cost example_parameters flat_mesh cell_A [1 / 4, 1 / 4, 1 / 4]
             (1 - [1 / 4, 1 / 4, 1 / 4] ! 0 - [1 / 4, 1 / 4, 1 / 4] ! 1 - [1 / 4, 1 / 4, 1 / 4] ! 2)
             observation_A = 0"
    by code_simp
  have l: "evaluate_real_location cell_A [1 / 4, 1 / 4, 1 / 4] Point_default
             = Point (1 / 4) (1 / 4) (1 / 4)"
    by code_simp
  show ?thesis
    unfolding cell_outcome_eval [OF c r] using e k l by simp
qed

lemma example_mesh_solvable:
  "\<forall>experimental_counts\<in>set [observation_A, observation_C, observation_C'].
     \<forall>c\<in>set (dof_handler example_mesh). cell_solvable example_parameters example_mesh experimental_counts c"
proof -
  have dh: "dof_handler example_mesh = [cell_A, cell_B, cell_C]"
    by (simp add: example_mesh_def)
  have "cell_solvable example_parameters example_mesh observation_A cell_A" by code_simp
  moreover have "cell_solvable example_parameters example_mesh observation_A cell_B" by code_simp
  moreover have "cell_solvable example_parameters example_mesh observation_A cell_C" by code_simp
  moreover have "cell_solvable example_parameters example_mesh observation_C cell_A" by code_simp
  moreover have "cell_solvable example_parameters example_mesh observation_C cell_B" by code_simp
  moreover have "cell_solvable example_parameters example_mesh observation_C cell_C" by code_simp
  moreover have "cell_solvable example_parameters example_mesh observation_C' cell_A" by code_simp
  moreover have "cell_solvable example_parameters example_mesh observation_C' cell_B" by code_simp
  moreover have "cell_solvable example_parameters example_mesh observation_C' cell_C" by code_simp
  ultimately show ?thesis by (simp add: dh)
qed

lemma example_local_search_fails:
  "find_position_local_search example_parameters observation_C default_tol cell_A
     (example_mesh\<lparr>previous_position_cell := cell_A,
                    found_positions := [Point (1 / 4) (1 / 4) (1 / 4)]\<rparr>)
   = Inr (False, example_mesh\<lparr>previous_position_cell := cell_A,
                    found_positions := [Point (1 / 4) (1 / 4) (1 / 4)]\<rparr>)"
proof -
  have cA: "count_from_all_detectors example_mesh cell_A
              = Inr [[10, 20, 20, 20], [5, 5, 15, 15], [1, 2, 3, 5], [2, 4, 4, 7]]"
    by code_simp
  have rA: "assemble_matrix_and_rhs [[10, 20, 20, 20], [5, 5, 15, 15], [1, 2, 3, 5], [2, 4, 4, 7]]
              observation_C (fem_cost_function example_parameters)
            = Inr [581 / 6550, 11593 / 13100, 8669 / 6550]"
    unfolding example_absolute by code_simp
  have eA: "\<not> calculate_reference_location_error [581 / 6550, 11593 / 13100, 8669 / 6550]
              (1 - [581 / 6550, 11593 / 13100, 8669 / 6550] ! 0
                 - [581 / 6550, 11593 / 13100, 8669 / 6550] ! 1
                 - [581 / 6550, 11593 / 13100, 8669 / 6550] ! 2) < default_tol"
    by code_simp
  have cB: "count_from_all_detectors example_mesh cell_B
              = Inr [[20, 20, 20, 30], [5, 15, 15, 25], [2, 3, 5, 8], [4, 4, 7, 9]]"
    by code_simp
  have rB: "assemble_matrix_and_rhs [[20, 20, 20, 30], [5, 15, 15, 25], [2, 3, 5, 8], [4, 4, 7, 9]]
              observation_C (fem_cost_function example_parameters)
            = Inr [- (587 / 2626), - (463 / 2626), 3413 / 2626]"
    unfolding example_absolute by code_simp
  have eB: "\<not> calculate_reference_location_error [- (587 / 2626), - (463 / 2626), 3413 / 2626]
              (1 - [- (587 / 2626), - (463 / 2626), 3413 / 2626] ! 0
                 - [- (587 / 2626), - (463 / 2626), 3413 / 2626] ! 1
                 - [- (587 / 2626), - (463 / 2626), 3413 / 2626] ! 2) < default_tol"
    by code_simp
  have oA: "cell_outcome example_parameters example_mesh observation_C default_tol cell_A = Inr None"
    unfolding cell_outcome_eval [OF cA rA] using eA by simp
  have oB: "cell_outcome example_parameters example_mesh observation_C default_tol cell_B = Inr None"
    unfolding cell_outcome_eval [OF cB rB] using eB by simp
  have cands: "candidate_cells [cell_A, cell_B, cell_C] cell_A (Suc 0) = [cell_A, cell_B]"
    by code_simp
  have dh: "dof_handler example_mesh = [cell_A, cell_B, cell_C]"
    and lvl: "search_proximity_level example_parameters = 1"
    by (simp_all add: example_mesh_def example_parameters_def)
  show ?thesis
    by (simp add: find_position_local_search_def dh lvl cands examine_cell_outcome oA oB
          initial_search_vars_def)
qed

lemma example_files_contents:
  "example_files ''temp_dof_handler.dof'' = Some (Dof_archive [cell_A, cell_B])"
  "\<forall>i<4. example_files (counts_filename i) = Some (Counts_archive (nodal_counts example_state ! i))"
proof -
  have "n_detector example_state \<le> length (nodal_counts example_state)"
    by (simp add: example_state_def)
  from checkpoint_files [OF this, of no_files] obtain fs' where
    "checkpoint example_state no_files = Inr fs'"
    "fs' ''temp_dof_handler.dof'' = Some (Dof_archive (dof_handler example_state))"
    "\<forall>i<n_detector example_state.
        fs' (counts_filename i) = Some (Counts_archive (nodal_counts example_state ! i))"
    by blast
  then show "example_files ''temp_dof_handler.dof'' = Some (Dof_archive [cell_A, cell_B])"
    and "\<forall>i<4. example_files (counts_filename i)
                  = Some (Counts_archive (nodal_counts example_state ! i))"
    by (simp_all add: example_files_def example_state_def)
qed

lemma example_load:
  "load_from_checkpoint three_files_parameters example_files example_state = Inr loaded_state"
proof -
  have "\<forall>i\<in>set [0..<3]. example_files (counts_filename i)
          = Some (Counts_archive (nodal_counts example_state ! i))"
    using example_files_contents(2) by simp
  then have "load_nodal_counts example_files (map counts_filename [0..<3])
          = Inr (map (\<lambda>i. nodal_counts example_state ! i) [0..<3])"
    by (rule load_nodal_counts_map)
  moreover have "map (\<lambda>i. nodal_counts example_state ! i) [0..<3]
                   = take 3 (nodal_counts example_state)"
    by (simp add: example_state_def upt3)
  ultimately show ?thesis
    by (simp add: load_from_checkpoint_def Let_def three_files_parameters_def
          example_parameters_def example_files_contents(1) loaded_state_def example_state_def)
qed

lemma example_outcomes_loaded:
  "cell_outcome three_files_parameters loaded_state observation_A3 default_tol cell_A
     = Inr (Some (0, Point (1 / 4) (1 / 4) (1 / 4)))"
  "cell_outcome three_files_parameters loaded_state observation_A3 default_tol cell_B = Inr None"
proof -
  have mode: "fem_cost_function three_files_parameters = absolute"
    by (simp add: three_files_parameters_def)
  have cA: "count_from_all_detectors loaded_state cell_A
              = Inr [[10, 20, 20, 20], [5, 5, 15, 15], [1, 2, 3, 5]]"
    by code_simp
  have rA: "assemble_matrix_and_rhs [[10, 20, 20, 20], [5, 5, 15, 15], [1, 2, 3, 5]]
              observation_A3 (fem_cost_function three_files_parameters) = Inr [1 / 4, 1 / 4, 1 / 4]"
    unfolding mode by code_simp
  have eA: "calculate_reference_location_error [1 / 4, 1 / 4, 1 / 4]
             (1 - [1 / 4, 1 / 4, 1 / 4] ! 0 - [1 / 4, 1 / 4, 1 / 4] ! 1 - [1 / 4, 1 / 4, 1 / 4] ! 2)
           < default_tol"
    by code_simp
  have kA: "calculate_cost three_files_parameters loaded_state cell_A [1 / 4, 1 / 4, 1 / 4]
             (1 - [1 / 4, 1 / 4, 1 / 4] ! 0 - [1 / 4, 1 / 4, 1 / 4] ! 1 - [1 / 4, 1 / 4, 1 / 4] ! 2)
             observation_A3 = 0"
    by code_simp
  have lA: "evaluate_real_location cell_A [1 / 4, 1 / 4, 1 / 4] Point_default
             = Point (1 / 4) (1 / 4) (1 / 4)"
    by code_simp
  show "cell_outcome three_files_parameters loaded_state observation_A3 default_tol cell_A
     = Inr (Some (0, Point (1 / 4) (1 / 4) (1 / 4)))"
    unfolding cell_outcome_eval [OF cA rA] using eA kA lA by simp
  have cB: "count_from_all_detectors loaded_state cell_B
              = Inr [[20, 20, 20, 30], [5, 15, 15, 25], [2, 3, 5, 8]]"
    by code_simp
  have rB: "assemble_matrix_and_rhs [[20, 20, 20, 30], [5, 15, 15, 25], [2, 3, 5, 8]]
              observation_A3 (fem_cost_function three_files_parameters)
            = Inr [3 / 8, 5 / 8, - (1 / 4)]"
    unfolding mode by code_simp
  have eB: "\<not> calculate_reference_location_error [3 / 8, 5 / 8, - (1 / 4)]
             (1 - [3 / 8, 5 / 8, - (1 / 4)] ! 0 - [3 / 8, 5 / 8, - (1 / 4)] ! 1
                - [3 / 8, 5 / 8, - (1 / 4)] ! 2) < default_tol"
    by code_simp
  show "cell_outcome three_files_parameters loaded_state observation_A3 default_tol cell_B = Inr None"
    unfolding cell_outcome_eval [OF cB rB] using eB by simp
qed

section \<open>The claims\<close>

subsection \<open>Validity checker\<close>

text \<open>
  C5. For a vector of \<open>dim\<close> reference coordinates and the implicit last coordinate,
  \<^verbatim>\<open>calculate_reference_location_error\<close> returns the sum of the squares of the \<open>dim + 1\<close>
  violations (\<open>coord - 1\<close> above one, \<open>\<bar>coord\<bar>\<close> below zero, zero between). The sum is not
  negative, and it is zero exactly when all \<open>dim + 1\<close> coordinates lie in the closed unit
  interval. It is zero at \<open>(1/4, 1/4, 1/4)\<close> and positive at \<open>(3/2, 0, 0)\<close>.
\<close>

theorem validity_checker_penalty:
  assumes "length reference_location = dim"
  shows "calculate_reference_location_error reference_location last_constraint =
           (\<Sum>i<dim. (spec_violation (reference_location ! i))\<^sup>2) + (spec_violation last_constraint)\<^sup>2
       \<and> 0 \<le> calculate_reference_location_error reference_location last_constraint
       \<and> (calculate_reference_location_error reference_location last_constraint = 0 \<longleftrightarrow>
            (\<forall>i<dim. 0 \<le> reference_location ! i \<and> reference_location ! i \<le> 1)
             \<and> 0 \<le> last_constraint \<and> last_constraint \<le> 1)
       \<and> calculate_reference_location_error [1/4, 1/4, 1/4] (1 - 1/4 - 1/4 - 1/4) = 0
       \<and> 0 < calculate_reference_location_error [3/2, 0, 0] (1 - 3/2 - 0 - 0)"
proof -
  from assms obtain a b c where r: "reference_location = [a, b, c]"
    using length3_cases [of reference_location] by (auto simp: dim_def)
  have zero: "x\<^sup>2 + y\<^sup>2 + z\<^sup>2 + w\<^sup>2 = 0 \<longleftrightarrow> x = 0 \<and> y = 0 \<and> z = 0 \<and> w = 0" for x y z w :: real
    by (smt (verit) power2_eq_iff_nonneg sum_power2_eq_zero_iff zero_le_power2 power2_less_eq_zero_iff)
  show ?thesis
    unfolding r validity_explicit
    by (simp add: dim_def lessThan3 all_less3 zero spec_violation_zero)
       (simp add: spec_violation_def)
qed

theorem validity_checker_penalty_witness:
  "length [2, 1/2, -1 :: real] = dim
   \<and> calculate_reference_location_error [2, 1/2, -1] (-1/2) = 9/4"
  using validity_checker_penalty [of "[2, 1/2, -1]" "-1/2"]
  by (simp add: dim_def lessThan3 spec_violation_def power2_eq_square)

subsection \<open>Cost evaluator\<close>

text \<open>
  C10. In absolute and in relative mode the matrix that \<^verbatim>\<open>assemble_matrix_and_rhs\<close> builds
  is symmetric: entry \<open>(i, j)\<close> equals entry \<open>(j, i)\<close>, whatever the vertex counts and the
  observed counts are. (The two entries add the same products in the same order of the
  detectors, with the factors of each product exchanged.)
\<close>

theorem system_matrix_symmetric:
  "i < dim \<Longrightarrow> j < dim \<Longrightarrow>
     sys_matrix_of cost_function_type vertex_count experimental_count ! i ! j =
     sys_matrix_of cost_function_type vertex_count experimental_count ! j ! i"
  by (cases cost_function_type)
     (simp_all add: sys_matrix_of_def sys_matrix_absolute_def sys_matrix_relative_def
        Let_def mult.commute)

theorem system_matrix_symmetric_witness:
  "(0::nat) < dim \<and> (2::nat) < dim
   \<and> sys_matrix_of relative [[10,20,20,20],[5,5,15,15],[1,2,3,5]] [15,10,3] ! 0 ! 2 = 8/9
   \<and> sys_matrix_of relative [[10,20,20,20],[5,5,15,15],[1,2,3,5]] [15,10,3] ! 2 ! 0 = 8/9"
  using system_matrix_symmetric [of 0 2 relative "[[10,20,20,20],[5,5,15,15],[1,2,3,5]]" "[15,10,3]"]
  by (simp add: dim_def sys_matrix_of_def sys_matrix_relative_def denom_of_def sigma_loop_def upt3 Let_def)

text \<open>
  C4. For counts at the four vertices of a cell, one row for each detector, and one observed
  count for each detector: in absolute mode entry \<open>(i, j)\<close> of the matrix is the sum over the
  detectors of \<open>(c\<^sub>d[j+1] - c\<^sub>d[0]) * (c\<^sub>d[i+1] - c\<^sub>d[0])\<close> and entry \<open>i\<close> of the right-hand side
  is minus the sum of \<open>(c\<^sub>d[0] - obs\<^sub>d) * (c\<^sub>d[i+1] - c\<^sub>d[0])\<close>; in relative mode, with no
  observed count zero, every term has the further factor \<open>1 / obs\<^sub>d\<^sup>2\<close>. What
  \<^verbatim>\<open>assemble_matrix_and_rhs\<close> returns is the solution of that system, the only one, and it
  does return whenever the determinant of the matrix is not zero (and, in relative mode, no
  observed count is zero).
\<close>

theorem cost_evaluator_system:
  assumes "list_all (\<lambda>row. length row = dim + 1) vertex_count"
    and "length experimental_count = length vertex_count"
  shows
    "(\<forall>i<dim. \<forall>j<dim.
        sys_matrix_of absolute vertex_count experimental_count ! i ! j =
          (\<Sum>d<length vertex_count.
             (vertex_count ! d ! (j + 1) - vertex_count ! d ! 0) *
             (vertex_count ! d ! (i + 1) - vertex_count ! d ! 0)))
   \<and> (\<forall>i<dim.
        sys_rhs_of absolute vertex_count experimental_count ! i =
          - (\<Sum>d<length vertex_count.
               (vertex_count ! d ! 0 - experimental_count ! d) *
               (vertex_count ! d ! (i + 1) - vertex_count ! d ! 0)))
   \<and> (0 \<notin> set experimental_count \<longrightarrow>
        (\<forall>i<dim. \<forall>j<dim.
           sys_matrix_of relative vertex_count experimental_count ! i ! j =
             (\<Sum>d<length vertex_count.
                (vertex_count ! d ! (j + 1) - vertex_count ! d ! 0) *
                (vertex_count ! d ! (i + 1) - vertex_count ! d ! 0) *
                (1 / (experimental_count ! d)\<^sup>2)))
        \<and> (\<forall>i<dim.
           sys_rhs_of relative vertex_count experimental_count ! i =
             - (\<Sum>d<length vertex_count.
                  (vertex_count ! d ! 0 - experimental_count ! d) *
                  (vertex_count ! d ! (i + 1) - vertex_count ! d ! 0) *
                  (1 / (experimental_count ! d)\<^sup>2))))
   \<and> (\<forall>mode x. assemble_matrix_and_rhs vertex_count experimental_count mode = Inr x \<longrightarrow>
        is_solution (sys_matrix_of mode vertex_count experimental_count)
                    (sys_rhs_of mode vertex_count experimental_count) x
        \<and> (\<forall>y. is_solution (sys_matrix_of mode vertex_count experimental_count)
                             (sys_rhs_of mode vertex_count experimental_count) y \<longrightarrow> y = x))
   \<and> (\<forall>mode. det3 (sys_matrix_of mode vertex_count experimental_count) \<noteq> 0
               \<and> (mode = relative \<longrightarrow> 0 \<notin> set experimental_count) \<longrightarrow>
        (\<exists>x. assemble_matrix_and_rhs vertex_count experimental_count mode = Inr x))"
proof -
  have m_abs: "sys_matrix_of absolute vertex_count experimental_count ! i ! j =
          (\<Sum>d<length vertex_count.
             (vertex_count ! d ! (j + 1) - vertex_count ! d ! 0) *
             (vertex_count ! d ! (i + 1) - vertex_count ! d ! 0))"
    if "i < dim" "j < dim" for i j
    using that by (simp add: sys_matrix_of_def sys_matrix_absolute_def sigma_loop_sum)
  have r_abs: "sys_rhs_of absolute vertex_count experimental_count ! i =
          - (\<Sum>d<length vertex_count.
               (vertex_count ! d ! 0 - experimental_count ! d) *
               (vertex_count ! d ! (i + 1) - vertex_count ! d ! 0))"
    if "i < dim" for i
    using that by (simp add: sys_rhs_of_def sys_rhs_absolute_def sigma_loop_sum)
  have m_rel: "sys_matrix_of relative vertex_count experimental_count ! i ! j =
          (\<Sum>d<length vertex_count.
             (vertex_count ! d ! (j + 1) - vertex_count ! d ! 0) *
             (vertex_count ! d ! (i + 1) - vertex_count ! d ! 0) *
             (1 / (experimental_count ! d)\<^sup>2))"
    if "i < dim" "j < dim" for i j
    using that assms(2)
    by (simp add: sys_matrix_of_def sys_matrix_relative_def sigma_loop_sum denom_of_def
          Let_def power2_eq_square)
  have r_rel: "sys_rhs_of relative vertex_count experimental_count ! i =
          - (\<Sum>d<length vertex_count.
               (vertex_count ! d ! 0 - experimental_count ! d) *
               (vertex_count ! d ! (i + 1) - vertex_count ! d ! 0) *
               (1 / (experimental_count ! d)\<^sup>2))"
    if "i < dim" for i
    using that assms(2)
    by (simp add: sys_rhs_of_def sys_rhs_relative_def sigma_loop_sum denom_of_def
          Let_def power2_eq_square)
  have lu: "lu_solve (sys_matrix_of mode vertex_count experimental_count)
                   (sys_rhs_of mode vertex_count experimental_count) = Some x"
    if "assemble_matrix_and_rhs vertex_count experimental_count mode = Inr x" for mode x
    using that by (auto simp: assemble_matrix_and_rhs_def Let_def split: if_splits option.splits)
  have sol1: "is_solution (sys_matrix_of mode vertex_count experimental_count)
          (sys_rhs_of mode vertex_count experimental_count) x"
    if "assemble_matrix_and_rhs vertex_count experimental_count mode = Inr x" for mode x
    using lu_solve_sound [OF lu [OF that]] sys_matrix_shape [of mode vertex_count experimental_count]
    by (simp add: dim_def)
  have sol2: "y = x"
    if "assemble_matrix_and_rhs vertex_count experimental_count mode = Inr x"
      and "is_solution (sys_matrix_of mode vertex_count experimental_count)
             (sys_rhs_of mode vertex_count experimental_count) y" for mode x y
    using lu_solve_unique [OF lu [OF that(1)] _ _ _ that(2)]
      sys_matrix_shape [of mode vertex_count experimental_count]
    by (simp add: dim_def)
  have ex: "\<exists>x. assemble_matrix_and_rhs vertex_count experimental_count mode = Inr x"
    if "det3 (sys_matrix_of mode vertex_count experimental_count) \<noteq> 0
          \<and> (mode = relative \<longrightarrow> 0 \<notin> set experimental_count)" for mode
  proof -
    have "list_all (\<lambda>row. dim < length row) vertex_count"
      using assms(1) by (simp add: list_all_iff)
    with that show ?thesis
      using assms(2) by (auto simp: assemble_matrix_and_rhs_def Let_def lu_solve_def)
  qed
  show ?thesis
  proof (intro conjI allI impI)
    fix i j assume "i < dim" "j < dim"
    then show "sys_matrix_of absolute vertex_count experimental_count ! i ! j =
          (\<Sum>d<length vertex_count.
             (vertex_count ! d ! (j + 1) - vertex_count ! d ! 0) *
             (vertex_count ! d ! (i + 1) - vertex_count ! d ! 0))"
      by (rule m_abs)
  next
    fix i assume "i < dim"
    then show "sys_rhs_of absolute vertex_count experimental_count ! i =
          - (\<Sum>d<length vertex_count.
               (vertex_count ! d ! 0 - experimental_count ! d) *
               (vertex_count ! d ! (i + 1) - vertex_count ! d ! 0))"
      by (rule r_abs)
  next
    fix i j assume "i < dim" "j < dim"
    then show "sys_matrix_of relative vertex_count experimental_count ! i ! j =
             (\<Sum>d<length vertex_count.
                (vertex_count ! d ! (j + 1) - vertex_count ! d ! 0) *
                (vertex_count ! d ! (i + 1) - vertex_count ! d ! 0) *
                (1 / (experimental_count ! d)\<^sup>2))"
      by (rule m_rel)
  next
    fix i assume "i < dim"
    then show "sys_rhs_of relative vertex_count experimental_count ! i =
             - (\<Sum>d<length vertex_count.
                  (vertex_count ! d ! 0 - experimental_count ! d) *
                  (vertex_count ! d ! (i + 1) - vertex_count ! d ! 0) *
                  (1 / (experimental_count ! d)\<^sup>2))"
      by (rule r_rel)
  next
    fix mode x
    assume "assemble_matrix_and_rhs vertex_count experimental_count mode = Inr x"
    then show "is_solution (sys_matrix_of mode vertex_count experimental_count)
          (sys_rhs_of mode vertex_count experimental_count) x"
      by (rule sol1)
  next
    fix mode x y
    assume "assemble_matrix_and_rhs vertex_count experimental_count mode = Inr x"
      "is_solution (sys_matrix_of mode vertex_count experimental_count)
             (sys_rhs_of mode vertex_count experimental_count) y"
    then show "y = x" by (rule sol2)
  next
    fix mode
    assume "det3 (sys_matrix_of mode vertex_count experimental_count) \<noteq> 0
          \<and> (mode = relative \<longrightarrow> 0 \<notin> set experimental_count)"
    then show "\<exists>x. assemble_matrix_and_rhs vertex_count experimental_count mode = Inr x"
      by (rule ex)
  qed
qed

theorem cost_evaluator_system_witness:
  "list_all (\<lambda>row. length row = dim + 1) [[10,20,20,20],[5,5,15,15],[1,2,3,5::real]]
   \<and> length [15,10,3::real] = length [[10,20,20,20],[5,5,15,15],[1,2,3,5::real]]
   \<and> assemble_matrix_and_rhs [[10,20,20,20],[5,5,15,15],[1,2,3,5]] [15,10,3] absolute
       = Inr [0, 0, 1/2]
   \<and> is_solution (sys_matrix_of absolute [[10,20,20,20],[5,5,15,15],[1,2,3,5]] [15,10,3])
                 (sys_rhs_of absolute [[10,20,20,20],[5,5,15,15],[1,2,3,5]] [15,10,3])
                 [0, 0, 1/2]"
proof -
  have h1: "list_all (\<lambda>row. length row = dim + 1) [[10,20,20,20],[5,5,15,15],[1,2,3,5::real]]"
    by (simp add: dim_def)
  have h2: "length [15,10,3::real] = length [[10,20,20,20],[5,5,15,15],[1,2,3,5::real]]"
    by simp
  have a: "assemble_matrix_and_rhs [[10,20,20,20],[5,5,15,15],[1,2,3,5]] [15,10,3] absolute
             = Inr [0, 0, 1/2]"
    by code_simp
  from cost_evaluator_system [OF h1 h2] a
  have "is_solution (sys_matrix_of absolute [[10,20,20,20],[5,5,15,15],[1,2,3,5]] [15,10,3])
                 (sys_rhs_of absolute [[10,20,20,20],[5,5,15,15],[1,2,3,5]] [15,10,3])
                 [0, 0, 1/2]"
    by blast
  with h1 h2 a show ?thesis by simp
qed

subsection \<open>Local search\<close>

text \<open>
  C6. The set of candidate cells that the local search builds at proximity level \<open>L\<close>
  contains the one it builds at level \<open>L - 1\<close>, for every anchor cell and every mesh: a
  further pass of the expansion inserts cells into the set and removes none.
\<close>

theorem local_candidates_monotone:
  "set (candidate_cells dh c (L - 1)) \<subseteq> set (candidate_cells dh c L)"
proof (cases "L \<le> 1")
  case True
  then have "L - 1 \<le> 1" by simp
  with True show ?thesis by (simp add: candidate_cells_def)
next
  case False
  then obtain k where L: "L = Suc (Suc k)"
    by (metis Suc_leI not_less_eq_eq not0_implies_Suc One_nat_def le_0_eq)
  define all1 where "all1 = insert_adjacent_cells dh c (set_insert c [])"
  define st where "st = fold (\<lambda>proximity_level. proximity_level_step dh) [2..<Suc k + 1] (all1, set_insert c [])"
  have prev: "candidate_cells dh c (L - 1) = fst st"
  proof (cases k)
    case 0
    then show ?thesis by (simp add: L candidate_cells_def st_def all1_def)
  next
    case (Suc m)
    then show ?thesis by (simp add: L candidate_cells_def st_def all1_def Let_def)
  qed
  have "[2..<L + 1] = [2..<Suc k + 1] @ [Suc k + 1]"
    by (simp add: L)
  then have cur: "candidate_cells dh c L = fst (proximity_level_step dh st)"
    by (simp add: L candidate_cells_def st_def all1_def Let_def)
  show ?thesis
    unfolding prev cur by (rule proximity_level_step_superset)
qed

theorem local_candidates_monotone_witness:
  "set (candidate_cells [cell_A, cell_B, cell_C] cell_A (2 - 1))
     \<subseteq> set (candidate_cells [cell_A, cell_B, cell_C] cell_A 2)
   \<and> map cell_index (candidate_cells [cell_A, cell_B, cell_C] cell_C 1) = [1, 2]
   \<and> map cell_index (candidate_cells [cell_A, cell_B, cell_C] cell_C 2) = [0, 1, 2]"
proof -
  have "map cell_index (candidate_cells [cell_A, cell_B, cell_C] cell_C 1) = [1, 2]"
    by code_simp
  moreover have "map cell_index (candidate_cells [cell_A, cell_B, cell_C] cell_C 2) = [0, 1, 2]"
    by code_simp
  ultimately show ?thesis
    using local_candidates_monotone [of "[cell_A, cell_B, cell_C]" cell_A 2] by simp
qed

subsection \<open>Global search\<close>

text \<open>
  C9. When the global search has examined every cell (each cell's system was solved) and
  the reference coordinates of no cell are below the extrapolation limit, the search
  appends one entry to \<^verbatim>\<open>found_positions\<close>, the default point with all coordinates zero,
  and returns false. In any search that returns, the position appended is that default point
  together with the result false, or else the real location in a cell of the mesh which
  passed the validity check with a cost strictly below \<^verbatim>\<open>DBL_MAX\<close>, together with the
  result true: the position is assigned nowhere else.
\<close>

theorem global_search_no_valid_cell:
  "((\<forall>c\<in>set (dof_handler st). \<exists>counts reference_location.
        count_from_all_detectors st c = Inr counts
        \<and> assemble_matrix_and_rhs counts experimental_count (fem_cost_function p)
            = Inr reference_location
        \<and> \<not> calculate_reference_location_error reference_location
              (1 - reference_location ! 0 - reference_location ! 1 - reference_location ! 2)
            < tol)
     \<longrightarrow> find_position_global_search p experimental_count tol st
           = Inr (False, st\<lparr>found_positions := found_positions st @ [Point_default]\<rparr>))
   \<and> (\<forall>found st'. find_position_global_search p experimental_count tol st = Inr (found, st')
        \<longrightarrow> (\<not> found \<and> st' = st\<lparr>found_positions := found_positions st @ [Point_default]\<rparr>)
          \<or> (found \<and> (\<exists>w\<in>set (dof_handler st). \<exists>cost.
                valid_cost p st experimental_count tol w = Some cost \<and> cost < DBL_MAX
                \<and> st' = st\<lparr>previous_position_cell := w,
                           found_positions := found_positions st
                              @ [valid_location p st experimental_count tol w]\<rparr>)))"
proof (intro conjI impI allI)
  assume none: "\<forall>c\<in>set (dof_handler st). \<exists>counts reference_location.
        count_from_all_detectors st c = Inr counts
        \<and> assemble_matrix_and_rhs counts experimental_count (fem_cost_function p)
            = Inr reference_location
        \<and> \<not> calculate_reference_location_error reference_location
              (1 - reference_location ! 0 - reference_location ! 1 - reference_location ! 2)
            < tol"
  have out: "cell_outcome p st experimental_count tol c = Inr None" if "c \<in> set (dof_handler st)" for c
    using none that by (fastforce simp: cell_outcome_def Let_def)
  then have "\<forall>c\<in>set (dof_handler st). \<exists>r. cell_outcome p st experimental_count tol c = Inr r"
    by blast
  then have "\<exists>r. find_position_global_search p experimental_count tol st = Inr r"
    using global_search_runs_iff [of p experimental_count tol st] by blast
  then obtain found s1 where
    run: "find_position_global_search p experimental_count tol st = Inr (found, s1)"
    by (metis surj_pair)
  have "valid_cost p st experimental_count tol c = None" if "c \<in> set (dof_handler st)" for c
    using out [OF that] by (simp add: valid_cost_def)
  with global_search_result [OF run]
  have "\<not> found \<and> s1 = st\<lparr>found_positions := found_positions st @ [Point_default]\<rparr>"
    by fastforce
  with run show "find_position_global_search p experimental_count tol st
           = Inr (False, st\<lparr>found_positions := found_positions st @ [Point_default]\<rparr>)"
    by simp
next
  fix found st'
  assume "find_position_global_search p experimental_count tol st = Inr (found, st')"
  from global_search_result [OF this]
  show "(\<not> found \<and> st' = st\<lparr>found_positions := found_positions st @ [Point_default]\<rparr>)
          \<or> (found \<and> (\<exists>w\<in>set (dof_handler st). \<exists>cost.
                valid_cost p st experimental_count tol w = Some cost \<and> cost < DBL_MAX
                \<and> st' = st\<lparr>previous_position_cell := w,
                           found_positions := found_positions st
                              @ [valid_location p st experimental_count tol w]\<rparr>))"
    by fastforce
qed


theorem global_search_no_valid_cell_witness:
  "find_position_global_search example_parameters [100, 1, 50, 3] (5 / 1000) example_state
     = Inr (False,
            example_state\<lparr>found_positions := found_positions example_state @ [Point_default]\<rparr>)"
proof -
  have cA: "count_from_all_detectors example_state cell_A
              = Inr [[10, 20, 20, 20], [5, 5, 15, 15], [1, 2, 3, 5], [2, 4, 4, 7]]"
    by code_simp
  have rA: "assemble_matrix_and_rhs [[10, 20, 20, 20], [5, 5, 15, 15], [1, 2, 3, 5], [2, 4, 4, 7]]
              [100, 1, 50, 3] absolute = Inr [29233 / 3275, - (7713 / 3275), 7567 / 3275]"
    by code_simp
  have eA: "\<not> calculate_reference_location_error [29233 / 3275, - (7713 / 3275), 7567 / 3275]
                (1 - [29233 / 3275, - (7713 / 3275), 7567 / 3275] ! 0
                   - [29233 / 3275, - (7713 / 3275), 7567 / 3275] ! 1
                   - [29233 / 3275, - (7713 / 3275), 7567 / 3275] ! 2) < 5 / 1000"
    by code_simp
  have cB: "count_from_all_detectors example_state cell_B
              = Inr [[20, 20, 20, 30], [5, 15, 15, 25], [2, 3, 5, 8], [4, 4, 7, 9]]"
    by code_simp
  have rB: "assemble_matrix_and_rhs [[20, 20, 20, 30], [5, 15, 15, 25], [2, 3, 5, 8], [4, 4, 7, 9]]
              [100, 1, 50, 3] absolute = Inr [- (60147 / 6565), - (9635 / 1313), 53832 / 6565]"
    by code_simp
  have eB: "\<not> calculate_reference_location_error [- (60147 / 6565), - (9635 / 1313), 53832 / 6565]
                (1 - [- (60147 / 6565), - (9635 / 1313), 53832 / 6565] ! 0
                   - [- (60147 / 6565), - (9635 / 1313), 53832 / 6565] ! 1
                   - [- (60147 / 6565), - (9635 / 1313), 53832 / 6565] ! 2) < 5 / 1000"
    by code_simp
  have dh: "dof_handler example_state = [cell_A, cell_B]"
    and mode: "fem_cost_function example_parameters = absolute"
    by (simp_all add: example_state_def example_parameters_def)
  have "\<forall>c\<in>set (dof_handler example_state). \<exists>counts reference_location.
        count_from_all_detectors example_state c = Inr counts
        \<and> assemble_matrix_and_rhs counts [100, 1, 50, 3] (fem_cost_function example_parameters)
            = Inr reference_location
        \<and> \<not> calculate_reference_location_error reference_location
              (1 - reference_location ! 0 - reference_location ! 1 - reference_location ! 2)
            < 5 / 1000"
    unfolding dh mode using cA rA eA cB rB eB by auto
  then show ?thesis
    using global_search_no_valid_cell [of example_state "[100, 1, 50, 3]" example_parameters "5 / 1000"]
    by blast
qed

text \<open>
  C7. The global search does not depend on the order in which the cells are visited. For a
  permutation of the cells: the search fails if and only if it fails in the other order,
  and otherwise it returns the same flag. A search that finds nothing leaves the same state.
  A search that finds a position selects a cell of the minimum cost \<open>m\<close> among the valid
  cells, in either order; the cell selected is the first one of its order whose cost is
  \<open>m\<close> (a later cell of the same cost is not strictly below), and the position recorded is
  the location in the selected cell. When one cell only has the minimum cost, both orders
  select it and record the same position.
\<close>

theorem global_search_order_independent:
  assumes "mset cells' = mset (dof_handler st)"
  shows "((\<exists>e. find_position_global_search p experimental_count tol st = Inl e)
           \<longrightarrow> (\<exists>e. find_position_global_search p experimental_count tol
                        (st\<lparr>dof_handler := cells'\<rparr>) = Inl e))
     \<and> (\<forall>found s1. find_position_global_search p experimental_count tol st = Inr (found, s1) \<longrightarrow>
          (\<exists>s1'. find_position_global_search p experimental_count tol (st\<lparr>dof_handler := cells'\<rparr>)
                   = Inr (found, s1')
             \<and> (\<not> found \<longrightarrow> s1' = s1\<lparr>dof_handler := cells'\<rparr>)
             \<and> (found \<longrightarrow> (\<exists>m. m < DBL_MAX
                   \<and> (\<forall>c\<in>set (dof_handler st). \<forall>k.
                         valid_cost p st experimental_count tol c = Some k \<longrightarrow> m \<le> k)
                   \<and> find (\<lambda>c. valid_cost p st experimental_count tol c = Some m) (dof_handler st)
                       = Some (previous_position_cell s1)
                   \<and> find (\<lambda>c. valid_cost p st experimental_count tol c = Some m) cells'
                       = Some (previous_position_cell s1')
                   \<and> found_positions s1 = found_positions st
                       @ [valid_location p st experimental_count tol (previous_position_cell s1)]
                   \<and> found_positions s1' = found_positions st
                       @ [valid_location p st experimental_count tol (previous_position_cell s1')])
                \<and> ((\<forall>c\<in>set (dof_handler st).
                        valid_cost p st experimental_count tol c
                          = valid_cost p st experimental_count tol (previous_position_cell s1)
                        \<longrightarrow> c = previous_position_cell s1)
                     \<longrightarrow> s1' = s1\<lparr>dof_handler := cells'\<rparr>))))"
proof (intro conjI impI allI)
  assume fail: "\<exists>e. find_position_global_search p experimental_count tol st = Inl e"
  have set_eq: "set cells' = set (dof_handler st)"
    using assms by (rule mset_eq_setD)
  from fail have "\<not> (\<exists>r. find_position_global_search p experimental_count tol st = Inr r)"
    by auto
  then have "\<not> (\<forall>c\<in>set (dof_handler st). \<exists>r. cell_outcome p st experimental_count tol c = Inr r)"
    using global_search_runs_iff [of p experimental_count tol st] by blast
  then have "\<not> (\<exists>r. find_position_global_search p experimental_count tol (st\<lparr>dof_handler := cells'\<rparr>) = Inr r)"
    using global_search_runs_iff [of p experimental_count tol "st\<lparr>dof_handler := cells'\<rparr>"] set_eq
    by simp
  then show "\<exists>e. find_position_global_search p experimental_count tol
                        (st\<lparr>dof_handler := cells'\<rparr>) = Inl e"
    by (metis sum.exhaust)
next
  fix found s1
  assume "find_position_global_search p experimental_count tol st = Inr (found, s1)"
  from global_search_permuted [OF assms this]
  show "\<exists>s1'. find_position_global_search p experimental_count tol (st\<lparr>dof_handler := cells'\<rparr>)
                   = Inr (found, s1')
             \<and> (\<not> found \<longrightarrow> s1' = s1\<lparr>dof_handler := cells'\<rparr>)
             \<and> (found \<longrightarrow> (\<exists>m. m < DBL_MAX
                   \<and> (\<forall>c\<in>set (dof_handler st). \<forall>k.
                         valid_cost p st experimental_count tol c = Some k \<longrightarrow> m \<le> k)
                   \<and> find (\<lambda>c. valid_cost p st experimental_count tol c = Some m) (dof_handler st)
                       = Some (previous_position_cell s1)
                   \<and> find (\<lambda>c. valid_cost p st experimental_count tol c = Some m) cells'
                       = Some (previous_position_cell s1')
                   \<and> found_positions s1 = found_positions st
                       @ [valid_location p st experimental_count tol (previous_position_cell s1)]
                   \<and> found_positions s1' = found_positions st
                       @ [valid_location p st experimental_count tol (previous_position_cell s1')])
                \<and> ((\<forall>c\<in>set (dof_handler st).
                        valid_cost p st experimental_count tol c
                          = valid_cost p st experimental_count tol (previous_position_cell s1)
                        \<longrightarrow> c = previous_position_cell s1)
                     \<longrightarrow> s1' = s1\<lparr>dof_handler := cells'\<rparr>))" .
qed

theorem global_search_order_independent_witness:
  "mset [cell_B, cell_A] = mset (dof_handler example_state)
   \<and> find_position_global_search example_parameters observation_AB default_tol
         example_state
       = Inr (True, example_state\<lparr>previous_position_cell := cell_B,
                      found_positions := [Point (1641 / 6565) (1413 / 5252) (10001 / 26260)]\<rparr>)
   \<and> find_position_global_search example_parameters observation_AB default_tol
         (example_state\<lparr>dof_handler := [cell_B, cell_A]\<rparr>)
       = Inr (True, example_state\<lparr>previous_position_cell := cell_B,
                      found_positions := [Point (1641 / 6565) (1413 / 5252) (10001 / 26260)],
                      dof_handler := [cell_B, cell_A]\<rparr>)"
proof -
  have dh: "dof_handler example_state = [cell_A, cell_B]"
    and fp: "found_positions example_state = []"
    by (simp_all add: example_state_def)
  have perm: "mset [cell_B, cell_A] = mset (dof_handler example_state)"
    by (simp add: dh)
  have run: "find_position_global_search example_parameters observation_AB
               default_tol example_state
             = Inr (True, example_state\<lparr>previous_position_cell := cell_B,
                      found_positions := [Point (1641 / 6565) (1413 / 5252) (10001 / 26260)]\<rparr>)"
    using DBL_MAX_large
    by (simp add: find_position_global_search_def dh fp examine_cell_outcome example_outcome_A
          example_outcome_B initial_search_vars_def)
  have vA: "valid_cost example_parameters example_state observation_AB
              default_tol cell_A = Some (2 / 655)"
    by (simp add: valid_cost_def example_outcome_A)
  have vB: "valid_cost example_parameters example_state observation_AB
              default_tol cell_B = Some (1 / 5252)"
    by (simp add: valid_cost_def example_outcome_B)
  have uniq: "\<forall>c\<in>set (dof_handler example_state).
          valid_cost example_parameters example_state observation_AB default_tol c
            = valid_cost example_parameters example_state observation_AB
                default_tol
                (previous_position_cell (example_state\<lparr>previous_position_cell := cell_B,
                   found_positions := [Point (1641 / 6565) (1413 / 5252) (10001 / 26260)]\<rparr>))
          \<longrightarrow> c = previous_position_cell (example_state\<lparr>previous_position_cell := cell_B,
                   found_positions := [Point (1641 / 6565) (1413 / 5252) (10001 / 26260)]\<rparr>)"
    by (simp add: dh vA vB)
  from global_search_order_independent [OF perm, of example_parameters
         observation_AB default_tol] run uniq
  have "\<exists>s1'. find_position_global_search example_parameters observation_AB
           default_tol (example_state\<lparr>dof_handler := [cell_B, cell_A]\<rparr>) = Inr (True, s1')
         \<and> s1' = example_state\<lparr>previous_position_cell := cell_B,
                      found_positions := [Point (1641 / 6565) (1413 / 5252) (10001 / 26260)]\<rparr>
                    \<lparr>dof_handler := [cell_B, cell_A]\<rparr>"
    by blast
  with perm run show ?thesis by simp
qed

subsection \<open>Failures of the solve\<close>

text \<open>
  C2, as the code has it. A cell whose system is singular is not skipped: the failure of the
  LU factorisation is caught nowhere. A global search of a mesh with such a cell ends with a
  failure, and so does the trajectory, at its first observation already; a local search
  whose candidate cells include such a cell ends with a failure. The cells that a search
  does skip, leaving its variables as they are, are those whose system is solved and whose
  reference coordinates are not below the extrapolation limit.
\<close>

theorem singular_cell_stops_search:
  assumes "count_from_all_detectors st c = Inr counts"
    and "assemble_matrix_and_rhs counts experimental_count (fem_cost_function p) = Inl ExcSingular"
  shows "(c \<in> set (dof_handler st) \<longrightarrow>
            (\<exists>e. find_position_global_search p experimental_count tol st = Inl e)
            \<and> (\<exists>e. trajectory p tol (experimental_count # rest) st = Inl e))
       \<and> (c \<in> set (candidate_cells (dof_handler st) anchor (search_proximity_level p)) \<longrightarrow>
            (\<exists>e. find_position_local_search p experimental_count tol anchor st = Inl e))
       \<and> (\<forall>c' counts' reference_location acc.
            count_from_all_detectors (snd acc) c' = Inr counts'
            \<and> assemble_matrix_and_rhs counts' experimental_count (fem_cost_function p)
                = Inr reference_location
            \<and> \<not> calculate_reference_location_error reference_location
                  (1 - reference_location ! 0 - reference_location ! 1 - reference_location ! 2)
                < tol
            \<longrightarrow> examine_cell p experimental_count tol c' acc = Inr acc)"
proof (intro conjI impI allI)
  have out: "cell_outcome p st experimental_count tol c = Inl ExcSingular"
    using assms by (rule cell_outcome_singular)
  {
    assume "c \<in> set (dof_handler st)"
    with out have "\<not> (\<forall>c\<in>set (dof_handler st). \<exists>r. cell_outcome p st experimental_count tol c = Inr r)"
      by force
    then have "\<not> (\<exists>r. find_position_global_search p experimental_count tol st = Inr r)"
      using global_search_runs_iff [of p experimental_count tol st] by blast
    then show g: "\<exists>e. find_position_global_search p experimental_count tol st = Inl e"
      by (metis sum.exhaust)
    then show "\<exists>e. trajectory p tol (experimental_count # rest) st = Inl e"
      using trajectory_first_search_fails by blast
  }
  {
    assume "c \<in> set (candidate_cells (dof_handler st) anchor (search_proximity_level p))"
    with out have "\<not> (\<forall>c\<in>set (candidate_cells (dof_handler st) anchor (search_proximity_level p)).
                       \<exists>r. cell_outcome p st experimental_count tol c = Inr r)"
      by force
    then have "\<not> (\<exists>r. find_position_local_search p experimental_count tol anchor st = Inr r)"
      using local_search_runs_iff [of p experimental_count tol anchor st] by blast
    then show "\<exists>e. find_position_local_search p experimental_count tol anchor st = Inl e"
      by (metis sum.exhaust)
  }
  fix c' counts' reference_location and acc :: "search_vars \<times> rpt_state"
  assume "count_from_all_detectors (snd acc) c' = Inr counts'
            \<and> assemble_matrix_and_rhs counts' experimental_count (fem_cost_function p)
                = Inr reference_location
            \<and> \<not> calculate_reference_location_error reference_location
                  (1 - reference_location ! 0 - reference_location ! 1 - reference_location ! 2)
                < tol"
  then show "examine_cell p experimental_count tol c' acc = Inr acc"
    by (simp add: examine_cell_def Let_def)
qed

theorem singular_cell_stops_search_witness:
  "cell_flat \<in> set (dof_handler flat_mesh)
   \<and> (\<exists>e. find_position_global_search example_parameters observation_A default_tol flat_mesh = Inl e)
   \<and> (\<exists>e. trajectory example_parameters default_tol [observation_A, observation_C] flat_mesh
           = Inl e)"
proof -
  have "cell_flat \<in> set (dof_handler flat_mesh)"
    by (simp add: flat_mesh_def)
  with singular_cell_stops_search [OF example_counts_flat example_singular_flat,
         of default_tol "[observation_C]"]
  show ?thesis by blast
qed

text \<open>
  C2, as the claim has it, fails. In \<open>flat_mesh\<close> the system of \<open>cell_flat\<close> is singular, and
  \<open>cell_A\<close>, examined before it, is a valid candidate of cost zero for the observation. The
  search does not skip \<open>cell_flat\<close> and record the position in \<open>cell_A\<close>: it ends with
  \<open>ExcSingular\<close>, and so does the run.
\<close>

theorem singular_cell_counterexample:
  "cell_flat \<in> set (dof_handler flat_mesh)
   \<and> count_from_all_detectors flat_mesh cell_flat
       = Inr [[1, 1, 1, 1], [1, 1, 1, 1], [2, 2, 2, 2], [3, 3, 3, 3]]
   \<and> assemble_matrix_and_rhs [[1, 1, 1, 1], [1, 1, 1, 1], [2, 2, 2, 2], [3, 3, 3, 3]]
       observation_A absolute = Inl ExcSingular
   \<and> cell_outcome example_parameters flat_mesh observation_A default_tol cell_A
       = Inr (Some (0, Point (1 / 4) (1 / 4) (1 / 4)))
   \<and> find_position_global_search example_parameters observation_A default_tol flat_mesh
       = Inl ExcSingular
   \<and> trajectory example_parameters default_tol [observation_A] flat_mesh = Inl ExcSingular"
proof -
  have dh: "dof_handler flat_mesh = [cell_A, cell_flat]"
    by (simp add: flat_mesh_def)
  have out: "cell_outcome example_parameters flat_mesh observation_A default_tol cell_flat
               = Inl ExcSingular"
    using example_counts_flat example_singular_flat by (rule cell_outcome_singular)
  have g: "find_position_global_search example_parameters observation_A default_tol flat_mesh
             = Inl ExcSingular"
    using DBL_MAX_large
    by (simp add: find_position_global_search_def dh examine_cell_outcome example_outcome_A_flat
          out initial_search_vars_def)
  from trajectory_first_search_fails [OF g, of "[]"]
  have "trajectory example_parameters default_tol [observation_A] flat_mesh = Inl ExcSingular" .
  with g dh example_counts_flat example_singular_flat [unfolded example_absolute]
    example_outcome_A_flat
  show ?thesis by simp
qed

subsection \<open>Trajectory\<close>

text \<open>
  C3, as the code has it. Under the policy that prefers the local search, a run that returns
  has appended one entry for each observation, in the order of the observations: after the
  first \<open>k\<close> observations the positions are the first \<open>k\<close> new entries of the final list. The
  run returns whenever the system of every cell of the mesh can be solved for every
  observation; it does not return when a search meets a singular system.
\<close>

theorem local_first_one_entry_per_observation:
  assumes "search_type p = local_search"
  shows "(\<forall>st'. trajectory p tol all_experimental_counts st = Inr st' \<longrightarrow>
            length (found_positions st')
              = length (found_positions st) + length all_experimental_counts
            \<and> (\<forall>k\<le>length all_experimental_counts.
                 \<exists>st_k. trajectory p tol (take k all_experimental_counts) st = Inr st_k
                   \<and> found_positions st_k
                       = take (length (found_positions st) + k) (found_positions st')))
       \<and> ((\<forall>experimental_counts\<in>set all_experimental_counts. \<forall>c\<in>set (dof_handler st).
               cell_solvable p st experimental_counts c)
            \<longrightarrow> (\<exists>st'. trajectory p tol all_experimental_counts st = Inr st'))"
proof (intro conjI allI impI)
  fix st'
  assume "trajectory p tol all_experimental_counts st = Inr st'"
  with assms have "trajectory_local p tol all_experimental_counts (False, st) = Inr st'"
    by (simp add: trajectory_def)
  from trajectory_local_appends [OF this] obtain new where
    new: "length new = length all_experimental_counts"
      "found_positions st' = found_positions st @ new"
      "\<forall>k\<le>length all_experimental_counts.
          \<exists>st_k. trajectory_local p tol (take k all_experimental_counts) (False, st) = Inr st_k
            \<and> found_positions st_k = found_positions st @ take k new"
    by blast
  show "length (found_positions st')
          = length (found_positions st) + length all_experimental_counts"
    using new(1,2) by simp
  fix k
  assume "k \<le> length all_experimental_counts"
  with new(3) obtain st_k where
    "trajectory_local p tol (take k all_experimental_counts) (False, st) = Inr st_k"
    "found_positions st_k = found_positions st @ take k new"
    by blast
  then show "\<exists>st_k. trajectory p tol (take k all_experimental_counts) st = Inr st_k
                   \<and> found_positions st_k
                       = take (length (found_positions st) + k) (found_positions st')"
    using assms new(2) by (simp add: trajectory_def)
next
  assume "\<forall>experimental_counts\<in>set all_experimental_counts. \<forall>c\<in>set (dof_handler st).
               cell_solvable p st experimental_counts c"
  then have "\<exists>st'. trajectory_local p tol all_experimental_counts (False, st) = Inr st'"
    by (intro trajectory_local_runs) simp_all
  with assms show "\<exists>st'. trajectory p tol all_experimental_counts st = Inr st'"
    by (simp add: trajectory_def)
qed

theorem local_first_one_entry_per_observation_witness:
  "search_type example_parameters = local_search
   \<and> find_position_local_search example_parameters observation_C default_tol cell_A
       (example_mesh\<lparr>previous_position_cell := cell_A,
                      found_positions := [Point (1 / 4) (1 / 4) (1 / 4)]\<rparr>)
     = Inr (False, example_mesh\<lparr>previous_position_cell := cell_A,
                      found_positions := [Point (1 / 4) (1 / 4) (1 / 4)]\<rparr>)
   \<and> (\<exists>st'. trajectory example_parameters default_tol
               [observation_A, observation_C, observation_C'] example_mesh = Inr st'
          \<and> length (found_positions st') = 3)"
proof -
  have p: "search_type example_parameters = local_search"
    by (simp add: example_parameters_def)
  have fp: "found_positions example_mesh = []"
    by (simp add: example_mesh_def example_state_def)
  from local_first_one_entry_per_observation [OF p, of default_tol
         "[observation_A, observation_C, observation_C']" example_mesh]
       example_mesh_solvable
  have "\<exists>st'. trajectory example_parameters default_tol
               [observation_A, observation_C, observation_C'] example_mesh = Inr st'
          \<and> length (found_positions st') = 3"
    by (auto simp: fp)
  with p example_local_search_fails show ?thesis by simp
qed

text \<open>
  C3, as the claim has it (one entry for each observation of every sequence), fails. With two
  detectors the matrix of a cell has rank two at most: for the mesh of one cell with the
  counts \<open>[10, 20, 20, 20]\<close> and \<open>[5, 5, 15, 15]\<close> and the one observation \<open>[15, 10]\<close> the run
  ends with \<open>ExcSingular\<close> and no entry.
\<close>

theorem local_first_counterexample:
  "search_type example_parameters = local_search
   \<and> count_from_all_detectors two_detector_mesh cell_A = Inr [[10, 20, 20, 20], [5, 5, 15, 15]]
   \<and> sys_matrix_of absolute [[10, 20, 20, 20], [5, 5, 15, 15]] [15, 10]
       = [[100, 100, 100], [100, 200, 200], [100, 200, 200]]
   \<and> trajectory example_parameters default_tol [[15, 10]] two_detector_mesh = Inl ExcSingular"
proof -
  have c: "count_from_all_detectors two_detector_mesh cell_A
             = Inr [[10, 20, 20, 20], [5, 5, 15, 15]]"
    by code_simp
  have m: "sys_matrix_of absolute [[10, 20, 20, 20], [5, 5, 15, 15]] [15, 10]
             = [[100, 100, 100], [100, 200, 200], [100, 200, 200]]"
    by code_simp
  have s: "assemble_matrix_and_rhs [[10, 20, 20, 20], [5, 5, 15, 15]] [15, 10]
             (fem_cost_function example_parameters) = Inl ExcSingular"
    unfolding example_absolute by code_simp
  have out: "cell_outcome example_parameters two_detector_mesh [15, 10] default_tol cell_A
               = Inl ExcSingular"
    using c s by (rule cell_outcome_singular)
  have dh: "dof_handler two_detector_mesh = [cell_A]"
    by (simp add: two_detector_mesh_def)
  have g: "find_position_global_search example_parameters [15, 10] default_tol two_detector_mesh
             = Inl ExcSingular"
    by (simp add: find_position_global_search_def dh examine_cell_outcome out)
  from trajectory_first_search_fails [OF g, of "[]"] c m
  show ?thesis by (simp add: example_parameters_def)
qed

subsection \<open>Checkpoint\<close>

text \<open>
  C8. Saving a checkpoint and loading it again, with the parameters naming the files that
  \<^verbatim>\<open>checkpoint\<close> writes, in the order of the detectors: the save succeeds, the load succeeds
  whatever the state held before, and the state loaded has the nodal counts of every
  detector as they were saved, in the same order, the same \<^verbatim>\<open>dof_handler\<close> and the same
  number of detectors. (The state saved has one vector of nodal counts for each detector.)
\<close>

theorem checkpoint_round_trip:
  assumes "n_detector st = length (nodal_counts st)"
    and "dof_handler_file p = ''temp_dof_handler.dof''"
    and "nodal_counts_file p = map counts_filename [0..<n_detector st]"
  shows "\<exists>fs' st'. checkpoint st fs = Inr fs'
           \<and> load_from_checkpoint p fs' st0 = Inr st'
           \<and> nodal_counts st' = nodal_counts st
           \<and> dof_handler st' = dof_handler st
           \<and> n_detector st' = n_detector st"
proof -
  from assms(1) have "n_detector st \<le> length (nodal_counts st)" by simp
  from checkpoint_files [OF this, of fs] obtain fs' where
    c: "checkpoint st fs = Inr fs'"
    and d: "fs' ''temp_dof_handler.dof'' = Some (Dof_archive (dof_handler st))"
    and n: "\<forall>i<n_detector st. fs' (counts_filename i) = Some (Counts_archive (nodal_counts st ! i))"
    by blast
  from n have "load_nodal_counts fs' (map counts_filename [0..<n_detector st])
                 = Inr (map (\<lambda>i. nodal_counts st ! i) [0..<n_detector st])"
    by (intro load_nodal_counts_map) simp
  also have "map (\<lambda>i. nodal_counts st ! i) [0..<n_detector st] = nodal_counts st"
    using assms(1) by (simp add: map_nth)
  finally have l: "load_nodal_counts fs' (nodal_counts_file p) = Inr (nodal_counts st)"
    by (simp add: assms(3))
  have "load_from_checkpoint p fs' st0
          = Inr (st0\<lparr>n_detector := length (nodal_counts_file p),
                      dof_handler := dof_handler st, nodal_counts := nodal_counts st\<rparr>)"
    by (simp add: load_from_checkpoint_def Let_def assms(2) d l)
  with c show ?thesis by (simp add: assms(3))
qed

theorem checkpoint_round_trip_witness:
  "n_detector example_state = length (nodal_counts example_state)
   \<and> dof_handler_file example_parameters = ''temp_dof_handler.dof''
   \<and> nodal_counts_file example_parameters = map counts_filename [0..<n_detector example_state]
   \<and> (\<exists>fs' st'. checkpoint example_state no_files = Inr fs'
          \<and> load_from_checkpoint example_parameters fs' two_detector_mesh = Inr st'
          \<and> nodal_counts st' = nodal_counts example_state
          \<and> dof_handler st' = dof_handler example_state
          \<and> n_detector st' = 4)"
proof -
  have h1: "n_detector example_state = length (nodal_counts example_state)"
    by (simp add: example_state_def)
  have h2: "dof_handler_file example_parameters = ''temp_dof_handler.dof''"
    by (simp add: example_parameters_def)
  have h3: "nodal_counts_file example_parameters = map counts_filename [0..<n_detector example_state]"
    by (simp add: example_parameters_def example_state_def)
  have n: "n_detector example_state = 4"
    by (simp add: example_state_def)
  from checkpoint_round_trip [OF h1 h2 h3, of no_files two_detector_mesh] h1 h2 h3
  show ?thesis unfolding n by blast
qed

text \<open>
  C1, as the code has it. \<^verbatim>\<open>load_from_checkpoint\<close> compares the number of files with
  nothing: it takes the number of files of nodal counts that the parameters name as the
  number of detectors, whatever number the object held before. When the file of the
  \<^verbatim>\<open>dof_handler\<close> and every file of counts can be read, the load succeeds and the run goes on
  to the trajectory with that number of detectors. The one failure of the load is that of
  reading a file, and it ends the run before any search.
\<close>

theorem load_takes_detector_count_from_files:
  "((\<exists>dh. fs (dof_handler_file p) = Some (Dof_archive dh))
      \<and> (\<forall>name\<in>set (nodal_counts_file p). \<exists>counts. fs name = Some (Counts_archive counts))
     \<longrightarrow> (\<exists>st'. load_from_checkpoint p fs st = Inr st'
            \<and> n_detector st' = length (nodal_counts_file p)
            \<and> length (nodal_counts st') = length (nodal_counts_file p)
            \<and> rpt_fem_reconstruct p fs tol all_experimental_counts st
                = trajectory p tol all_experimental_counts st'))
   \<and> (\<forall>e. load_from_checkpoint p fs st = Inl e
         \<longrightarrow> e = ExcIO \<and> rpt_fem_reconstruct p fs tol all_experimental_counts st = Inl ExcIO)"
proof (intro conjI impI allI)
  assume a: "(\<exists>dh. fs (dof_handler_file p) = Some (Dof_archive dh))
      \<and> (\<forall>name\<in>set (nodal_counts_file p). \<exists>counts. fs name = Some (Counts_archive counts))"
  then obtain dh where dh: "fs (dof_handler_file p) = Some (Dof_archive dh)" by blast
  from a obtain counts where c: "load_nodal_counts fs (nodal_counts_file p) = Inr counts"
    using load_nodal_counts_runs [of "nodal_counts_file p" fs] by blast
  have len: "length counts = length (nodal_counts_file p)"
    using c by (rule load_nodal_counts_length)
  have "load_from_checkpoint p fs st
          = Inr (st\<lparr>n_detector := length (nodal_counts_file p),
                     dof_handler := dh, nodal_counts := counts\<rparr>)"
    by (simp add: load_from_checkpoint_def Let_def dh c)
  then show "\<exists>st'. load_from_checkpoint p fs st = Inr st'
            \<and> n_detector st' = length (nodal_counts_file p)
            \<and> length (nodal_counts st') = length (nodal_counts_file p)
            \<and> rpt_fem_reconstruct p fs tol all_experimental_counts st
                = trajectory p tol all_experimental_counts st'"
    using len by (simp add: rpt_fem_reconstruct_def)
next
  fix e
  assume "load_from_checkpoint p fs st = Inl e"
  then show "e = ExcIO" by (rule load_from_checkpoint_error)
next
  fix e
  assume l: "load_from_checkpoint p fs st = Inl e"
  then have "e = ExcIO" by (rule load_from_checkpoint_error)
  with l show "rpt_fem_reconstruct p fs tol all_experimental_counts st = Inl ExcIO"
    by (simp add: rpt_fem_reconstruct_def)
qed

theorem load_takes_detector_count_from_files_witness:
  "(\<exists>dh. example_files (dof_handler_file three_files_parameters) = Some (Dof_archive dh))
   \<and> (\<exists>st'. load_from_checkpoint three_files_parameters example_files example_state = Inr st'
          \<and> n_detector st' = 3)"
proof -
  have d: "\<exists>dh. example_files (dof_handler_file three_files_parameters) = Some (Dof_archive dh)"
    by (simp add: three_files_parameters_def example_parameters_def example_files_contents(1))
  have "\<forall>name\<in>set (nodal_counts_file three_files_parameters).
          \<exists>counts. example_files name = Some (Counts_archive counts)"
    using example_files_contents(2) by (auto simp: three_files_parameters_def)
  with d load_takes_detector_count_from_files [of example_files three_files_parameters
         example_state default_tol "[]"]
  have "\<exists>st'. load_from_checkpoint three_files_parameters example_files example_state = Inr st'
          \<and> n_detector st' = length (nodal_counts_file three_files_parameters)"
    by blast
  with d show ?thesis by (simp add: three_files_parameters_def)
qed

text \<open>
  C1, as the claim has it, fails. The object holds four detectors and the checkpoint has four
  files of counts, but the parameters name three of them. The load succeeds with three
  detectors, and the run goes on and records a position.
\<close>

theorem load_detector_mismatch_counterexample:
  "n_detector example_state = 4
   \<and> length (nodal_counts_file three_files_parameters) = 3
   \<and> load_from_checkpoint three_files_parameters example_files example_state = Inr loaded_state
   \<and> n_detector loaded_state = 3
   \<and> rpt_fem_reconstruct three_files_parameters example_files default_tol [observation_A3]
         example_state
       = Inr (loaded_state\<lparr>previous_position_cell := cell_A,
                            found_positions := [Point (1 / 4) (1 / 4) (1 / 4)]\<rparr>)"
proof -
  have dh: "dof_handler loaded_state = [cell_A, cell_B]"
    and fp: "found_positions loaded_state = []"
    and n: "n_detector loaded_state = 3"
    by (simp_all add: loaded_state_def example_state_def)
  have st: "search_type three_files_parameters = local_search"
    by (simp add: three_files_parameters_def example_parameters_def)
  have g: "find_position_global_search three_files_parameters observation_A3 default_tol loaded_state
             = Inr (True, loaded_state\<lparr>previous_position_cell := cell_A,
                            found_positions := [Point (1 / 4) (1 / 4) (1 / 4)]\<rparr>)"
    using DBL_MAX_large
    by (simp add: find_position_global_search_def dh fp examine_cell_outcome
          example_outcomes_loaded initial_search_vars_def)
  have "trajectory three_files_parameters default_tol [observation_A3] loaded_state
          = Inr (loaded_state\<lparr>previous_position_cell := cell_A,
                            found_positions := [Point (1 / 4) (1 / 4) (1 / 4)]\<rparr>)"
    by (simp add: trajectory_def st local_first_step_def g)
  then have "rpt_fem_reconstruct three_files_parameters example_files default_tol [observation_A3]
         example_state
       = Inr (loaded_state\<lparr>previous_position_cell := cell_A,
                            found_positions := [Point (1 / 4) (1 / 4) (1 / 4)]\<rparr>)"
    by (simp add: rpt_fem_reconstruct_def example_load)
  moreover have "n_detector example_state = 4"
    by (simp add: example_state_def)
  moreover have "length (nodal_counts_file three_files_parameters) = 3"
    by (simp add: three_files_parameters_def)
  ultimately show ?thesis using example_load n by simp
qed

end
